theory Spec2Isabelle
  imports Main "HOL-Library.Word" "HOL-Library.AList"
begin

section \<open>Data model of completion_callback.h\<close>

text \<open>
  The header declares the class \<open>CompletionCallback\<close> (the handle) and the class
  template \<open>CompletionCallbackFactory<T>\<close> with its two nested classes: \<open>BackPointer\<close>
  (the reference-counted indirection cell) and \<open>CallbackImpl\<close> (the only class derived
  from \<open>CompletionCallback\<close>). Factories, cells and handles point at one another and
  are created and deleted one by one, so the model is an explicit store: one typed heap per
  class, each an association list from addresses to records. \<open>new\<close> takes the next
  unused address, \<open>delete\<close> removes the entry. A pointer is an \<open>addr option\<close>
  (\<open>None\<close> is \<open>NULL\<close>); dereferencing \<open>NULL\<close>, or an address that is not or no
  longer in the heap, is undefined behaviour in C++ and an \<open>error\<close> value here.

  A name cannot end in an underscore here: the members \<open>ref_\<close>, \<open>factory_\<close>,
  \<open>object_\<close>, \<open>back_pointer_\<close>, \<open>thunk_\<close> and \<open>method_\<close> are the fields \<open>ref\<close>,
  \<open>factory\<close>, \<open>object\<close>, \<open>back_pointer\<close>, \<open>thunk\<close> and \<open>cb_method\<close>; the
  \<open>back_pointer_\<close> of \<open>CallbackImpl\<close> is \<open>cb_back_pointer\<close>.
\<close>

type_synonym addr = nat

type_synonym int32_t = "32 word"

text \<open>A pointer to member function \<open>void (T::*)(int32_t)\<close>, identified by a number.\<close>

type_synonym Method = nat

datatype error = NullDeref | UseAfterFree | SignedOverflow | AssertionFailed

text \<open>
  \<open>ThunkType\<close> is \<open>void (*)(void* user_data, int32_t result)\<close>. The only function of
  that type in the header is the static \<open>CallbackImpl::Thunk\<close>.
\<close>

datatype ThunkType = Thunk_ptr

record BackPointer =
  ref :: int32_t
  factory :: "addr option"

record CallbackImpl =
  thunk :: ThunkType
  cb_back_pointer :: "addr option"
  cb_method :: Method

record CompletionCallbackFactory =
  object :: "addr option"
  back_pointer :: "addr option"

text \<open>
  \<open>PP_CompletionCallback\<close> is declared in ppapi/c/pp_completion_callback.h, which is not
  part of the sources at hand. \<open>ToPP\<close> builds it as \<open>{ cc->thunk_, cc }\<close>: a
  function pointer and its user data, either of which may be \<open>NULL\<close>.
\<close>

record PP_CompletionCallback =
  func :: "ThunkType option"
  user_data :: "addr option"

text \<open>
  The program state: the three heaps, the allocator's next address, and the trace of
  calls \<open>(object->*method)(result)\<close> made so far, oldest first.
\<close>

record prog_state =
  factories :: "(addr \<times> CompletionCallbackFactory) list"
  back_pointers :: "(addr \<times> BackPointer) list"
  callbacks :: "(addr \<times> CallbackImpl) list"
  next_addr :: addr
  calls :: "(addr \<times> Method \<times> int32_t) list"

definition init_state :: prog_state where
  "init_state = \<lparr>factories = [], back_pointers = [], callbacks = [], next_addr = 0, calls = []\<rparr>"

definition deref :: "(addr \<times> 'a) list \<Rightarrow> addr option \<Rightarrow> error + (addr \<times> 'a)" where
  "deref h p =
     (case p of
        None \<Rightarrow> Inl NullDeref
      | Some a \<Rightarrow> (case map_of h a of None \<Rightarrow> Inl UseAfterFree | Some v \<Rightarrow> Inr (a, v)))"

section \<open>BackPointer\<close>

text \<open>
  \<open>BackPointer() : ref_(0), factory_(NULL)\<close> (line 132) is the only constructor the
  class declares.
\<close>

definition BackPointer_ctor :: BackPointer where
  "BackPointer_ctor = \<lparr>ref = 0, factory = None\<rparr>"

subsection \<open>The constructors of BackPointer and the call of line 184\<close>

text \<open>
  \<open>InitBackPointer\<close> (line 184) writes \<open>new BackPointer(this)\<close>: a constructor call
  with one argument, whose type is \<open>CompletionCallbackFactory<T>*\<close>. The constructors of
  the class are the one it declares, which has no parameter, and the copy constructor
  \<open>BackPointer(const BackPointer&)\<close> that the language adds. A constructor is viable for
  a call when it has as many parameters as the call has arguments and every argument
  converts to its parameter. A pointer to a factory does not convert to a reference to a
  \<open>BackPointer\<close>: this would take a constructor of \<open>BackPointer\<close> from that pointer,
  and the class has none. The two types below are the only ones that occur; between them
  an argument is accepted only by a parameter of its own type.
\<close>

datatype cxx_type = Factory_pointer | BackPointer_const_ref

definition BackPointer_constructors :: "cxx_type list list" where
  "BackPointer_constructors = [[], [BackPointer_const_ref]]"

definition accepts :: "cxx_type \<Rightarrow> cxx_type \<Rightarrow> bool" where
  "accepts param arg = (param = arg)"

definition viable_constructors :: "cxx_type list \<Rightarrow> cxx_type list list" where
  "viable_constructors args = filter (\<lambda>params. list_all2 accepts params args) BackPointer_constructors"

definition line184_arguments :: "cxx_type list" where
  "line184_arguments = [Factory_pointer]"

text \<open>
  No constructor is viable for the call of line 184 (theorem
  \<open>line184_has_no_viable_constructor\<close> below), so the source does not say which cell the
  call creates. The operations that reach line 184 therefore take the constructor it
  needs as a parameter \<open>k\<close>. Both values start the count at 0, as the declared constructor
  does; \<open>Leaves_null\<close> leaves \<open>factory_\<close> at \<open>NULL\<close>, as the member initialisers of the
  declared constructor do, and \<open>Stores_argument\<close> stores the argument in \<open>factory_\<close>.
  What is proved about these operations is proved for both.
\<close>

datatype missing_ctor = Leaves_null | Stores_argument

definition BackPointer_ctor1 :: "missing_ctor \<Rightarrow> addr \<Rightarrow> BackPointer" where
  "BackPointer_ctor1 k arg =
     (case k of
        Leaves_null \<Rightarrow> BackPointer_ctor
      | Stores_argument \<Rightarrow> BackPointer_ctor\<lparr>factory := Some arg\<rparr>)"

text \<open>
  \<open>ref_++\<close> on an \<open>int32_t\<close>: overflow of a signed integer is undefined behaviour.
\<close>

definition AddRef :: "addr option \<Rightarrow> prog_state \<Rightarrow> error + prog_state" where
  "AddRef this s =
     (case deref (back_pointers s) this of
        Inl e \<Rightarrow> Inl e
      | Inr (a, b) \<Rightarrow>
          if sint (ref b) = 2147483647 then Inl SignedOverflow
          else Inr (s\<lparr>back_pointers := AList.update a (b\<lparr>ref := ref b + 1\<rparr>) (back_pointers s)\<rparr>))"

text \<open>\<open>if (--ref_ == 0) delete this;\<close>\<close>

definition Release :: "addr option \<Rightarrow> prog_state \<Rightarrow> error + prog_state" where
  "Release this s =
     (case deref (back_pointers s) this of
        Inl e \<Rightarrow> Inl e
      | Inr (a, b) \<Rightarrow>
          if sint (ref b) = - 2147483648 then Inl SignedOverflow
          else if ref b - 1 = 0
            then Inr (s\<lparr>back_pointers := AList.delete a (back_pointers s)\<rparr>)
            else Inr (s\<lparr>back_pointers := AList.update a (b\<lparr>ref := ref b - 1\<rparr>) (back_pointers s)\<rparr>))"

definition DropFactory :: "addr option \<Rightarrow> prog_state \<Rightarrow> error + prog_state" where
  "DropFactory this s =
     (case deref (back_pointers s) this of
        Inl e \<Rightarrow> Inl e
      | Inr (a, b) \<Rightarrow>
          Inr (s\<lparr>back_pointers := AList.update a (b\<lparr>factory := None\<rparr>) (back_pointers s)\<rparr>))"

section \<open>CompletionCallbackFactory\<close>

text \<open>\<open>T* GetObject() { return object_; }\<close>\<close>

definition GetObject :: "addr \<Rightarrow> prog_state \<Rightarrow> error + addr option" where
  "GetObject this s =
     (case map_of (factories s) this of
        None \<Rightarrow> Inl UseAfterFree
      | Some f \<Rightarrow> Inr (object f))"

text \<open>\<open>BackPointer::GetObject\<close>: \<open>return factory_ ? factory_->GetObject() : NULL;\<close>\<close>

definition BackPointer_GetObject :: "addr option \<Rightarrow> prog_state \<Rightarrow> error + addr option" where
  "BackPointer_GetObject this s =
     (case deref (back_pointers s) this of
        Inl e \<Rightarrow> Inl e
      | Inr (a, b) \<Rightarrow>
          (case factory b of
             None \<Rightarrow> Inr None
           | Some f \<Rightarrow> GetObject f s))"

text \<open>
  \<open>back_pointer_ = new BackPointer(this); back_pointer_->AddRef();\<close>
  The new cell is the one the constructor \<open>k\<close> makes of the argument \<open>this\<close>.
\<close>

definition InitBackPointer :: "missing_ctor \<Rightarrow> addr \<Rightarrow> prog_state \<Rightarrow> error + prog_state" where
  "InitBackPointer k this s =
     (case map_of (factories s) this of
        None \<Rightarrow> Inl UseAfterFree
      | Some f \<Rightarrow>
          let a = next_addr s;
              s1 = s\<lparr>back_pointers := AList.update a (BackPointer_ctor1 k this) (back_pointers s),
                     next_addr := Suc a\<rparr>;
              s2 = s1\<lparr>factories := AList.update this (f\<lparr>back_pointer := Some a\<rparr>) (factories s1)\<rparr>
          in AddRef (Some a) s2)"

text \<open>\<open>back_pointer_->DropFactory(); back_pointer_->Release();\<close>\<close>

definition ResetBackPointer :: "addr \<Rightarrow> prog_state \<Rightarrow> error + prog_state" where
  "ResetBackPointer this s =
     (case map_of (factories s) this of
        None \<Rightarrow> Inl UseAfterFree
      | Some f \<Rightarrow>
          (case DropFactory (back_pointer f) s of
             Inl e \<Rightarrow> Inl e
           | Inr s1 \<Rightarrow> Release (back_pointer f) s1))"

text \<open>
  Modelled from the spec: \<open>PP_DCHECK\<close> of ppapi/cpp/logging.h, which is not part of the
  sources at hand. The specification calls a failed check fatal in debug builds; in a
  release build the macro expands to nothing. \<open>debug\<close> tells which build it is.
\<close>

definition PP_DCHECK :: "bool \<Rightarrow> bool \<Rightarrow> error + unit" where
  "PP_DCHECK debug cond = (if debug \<and> \<not> cond then Inl AssertionFailed else Inr ())"

text \<open>
  The constructor. The factory object itself gets the next free address; its member
  \<open>back_pointer_\<close> is not initialised before \<open>InitBackPointer\<close> assigns it.
\<close>

definition CompletionCallbackFactory_ctor ::
    "missing_ctor \<Rightarrow> bool \<Rightarrow> addr option \<Rightarrow> prog_state \<Rightarrow> error + (addr \<times> prog_state)" where
  "CompletionCallbackFactory_ctor k debug obj s =
     (let this = next_addr s;
          s1 = s\<lparr>factories := AList.update this \<lparr>object = obj, back_pointer = None\<rparr> (factories s),
                 next_addr := Suc this\<rparr>
      in case PP_DCHECK debug (obj \<noteq> None) of
           Inl e \<Rightarrow> Inl e
         | Inr _ \<Rightarrow>
             (case InitBackPointer k this s1 of
                Inl e \<Rightarrow> Inl e
              | Inr s2 \<Rightarrow> Inr (this, s2)))"

text \<open>The destructor runs \<open>ResetBackPointer\<close>; then the factory's storage is gone.\<close>

definition CompletionCallbackFactory_dtor :: "addr \<Rightarrow> prog_state \<Rightarrow> error + prog_state" where
  "CompletionCallbackFactory_dtor this s =
     (case ResetBackPointer this s of
        Inl e \<Rightarrow> Inl e
      | Inr s1 \<Rightarrow> Inr (s1\<lparr>factories := AList.delete this (factories s1)\<rparr>))"

definition CancelAll :: "missing_ctor \<Rightarrow> addr \<Rightarrow> prog_state \<Rightarrow> error + prog_state" where
  "CancelAll k this s =
     (case ResetBackPointer this s of
        Inl e \<Rightarrow> Inl e
      | Inr s1 \<Rightarrow> InitBackPointer k this s1)"

section \<open>CallbackImpl and CompletionCallback\<close>

text \<open>
  \<open>new CallbackImpl(back_pointer, method)\<close>: the base class stores \<open>&CallbackImpl::Thunk\<close>,
  the members are initialised, and the body calls \<open>back_pointer_->AddRef()\<close>.
\<close>

definition CallbackImpl_ctor ::
    "addr option \<Rightarrow> Method \<Rightarrow> prog_state \<Rightarrow> error + (addr \<times> prog_state)" where
  "CallbackImpl_ctor bp meth s =
     (let self = next_addr s;
          s1 = s\<lparr>callbacks := AList.update self
                     \<lparr>thunk = Thunk_ptr, cb_back_pointer = bp, cb_method = meth\<rparr>
                     (callbacks s),
                 next_addr := Suc self\<rparr>
      in case AddRef bp s1 of
           Inl e \<Rightarrow> Inl e
         | Inr s2 \<Rightarrow> Inr (self, s2))"

text \<open>\<open>return new CallbackImpl(back_pointer_, method);\<close>\<close>

definition NewCallback :: "addr \<Rightarrow> Method \<Rightarrow> prog_state \<Rightarrow> error + (addr \<times> prog_state)" where
  "NewCallback this meth s =
     (case map_of (factories s) this of
        None \<Rightarrow> Inl UseAfterFree
      | Some f \<Rightarrow> CallbackImpl_ctor (back_pointer f) meth s)"

text \<open>
  \<open>delete self\<close>: the destructor \<open>~CallbackImpl\<close> calls \<open>back_pointer_->Release()\<close>, then
  the handle's storage is freed.
\<close>

definition CallbackImpl_delete :: "addr \<Rightarrow> prog_state \<Rightarrow> error + prog_state" where
  "CallbackImpl_delete self s =
     (case map_of (callbacks s) self of
        None \<Rightarrow> Inl UseAfterFree
      | Some c \<Rightarrow>
          (case Release (cb_back_pointer c) s of
             Inl e \<Rightarrow> Inl e
           | Inr s1 \<Rightarrow> Inr (s1\<lparr>callbacks := AList.delete self (callbacks s1)\<rparr>)))"

text \<open>
  The call \<open>(object->*method)(result)\<close> of the owner's bound method. The method is the
  owner's code; the model records that it was called, on which object and with which
  result code.
\<close>

definition call_method :: "addr \<Rightarrow> Method \<Rightarrow> int32_t \<Rightarrow> prog_state \<Rightarrow> prog_state" where
  "call_method obj meth result s = s\<lparr>calls := calls s @ [(obj, meth, result)]\<rparr>"

definition Thunk :: "addr option \<Rightarrow> int32_t \<Rightarrow> prog_state \<Rightarrow> error + prog_state" where
  "Thunk data result s =
     (case deref (callbacks s) data of
        Inl e \<Rightarrow> Inl e
      | Inr (self, c) \<Rightarrow>
          (case BackPointer_GetObject (cb_back_pointer c) s of
             Inl e \<Rightarrow> Inl e
           | Inr obj \<Rightarrow>
               CallbackImpl_delete self
                 (case obj of
                    None \<Rightarrow> s
                  | Some ob \<Rightarrow> call_method ob (cb_method c) result s)))"

text \<open>Calling through a function pointer of type \<open>ThunkType\<close>.\<close>

fun call_thunk :: "ThunkType \<Rightarrow> addr option \<Rightarrow> int32_t \<Rightarrow> prog_state \<Rightarrow> error + prog_state" where
  "call_thunk Thunk_ptr data result s = Thunk data result s"

text \<open>\<open>void Run(int32_t result) { thunk_(this, result); }\<close>\<close>

definition Run :: "addr \<Rightarrow> int32_t \<Rightarrow> prog_state \<Rightarrow> error + prog_state" where
  "Run this result s =
     (case map_of (callbacks s) this of
        None \<Rightarrow> Inl UseAfterFree
      | Some c \<Rightarrow> call_thunk (thunk c) (Some this) result s)"

text \<open>
  \<open>ToPP\<close>. \<open>PP_BlockUntilComplete()\<close> is declared in ppapi/c/pp_completion_callback.h,
  which is not part of the sources at hand; the value it returns is the parameter
  \<open>block_until_complete\<close>.
\<close>

definition ToPP ::
    "PP_CompletionCallback \<Rightarrow> addr option \<Rightarrow> prog_state \<Rightarrow> error + PP_CompletionCallback" where
  "ToPP block_until_complete cc s =
     (case cc of
        None \<Rightarrow> Inr block_until_complete
      | Some a \<Rightarrow>
          (case map_of (callbacks s) a of
             None \<Rightarrow> Inl UseAfterFree
           | Some c \<Rightarrow> Inr \<lparr>func = Some (thunk c), user_data = Some a\<rparr>))"

text \<open>
  Modelled from the spec: how the operation starter invokes a primitive handle form. The
  code is in ppapi/c, not part of the sources at hand; the specification says the
  starter stores the pair (dispatch function, opaque context pointer) and later invokes
  it with a signed integer result code, that is \<open>cb.func(cb.user_data, result)\<close>.
\<close>

definition invoke_PP :: "PP_CompletionCallback \<Rightarrow> int32_t \<Rightarrow> prog_state \<Rightarrow> error + prog_state" where
  "invoke_PP cb result s =
     (case func cb of
        None \<Rightarrow> Inl NullDeref
      | Some t \<Rightarrow> call_thunk t (user_data cb) result s)"

section \<open>Client programs\<close>

text \<open>
  What a client of the header can do: construct or destroy a factory, mint a handle,
  cancel, and run a handle. A client program is a list of such operations; it stops at
  the first undefined behaviour or failed assertion. \<open>exec\<close> and \<open>run\<close> say what the
  operations do once line 184 has a constructor \<open>k\<close> to call.
\<close>

datatype op =
    Construct "addr option"
  | Mint addr Method
  | Cancel addr
  | Destroy addr
  | Invoke addr int32_t

fun exec :: "missing_ctor \<Rightarrow> bool \<Rightarrow> op \<Rightarrow> prog_state \<Rightarrow> error + prog_state" where
  "exec k debug (Construct obj) s =
     (case CompletionCallbackFactory_ctor k debug obj s of Inl e \<Rightarrow> Inl e | Inr (f, s') \<Rightarrow> Inr s')"
| "exec k debug (Mint f m) s =
     (case NewCallback f m s of Inl e \<Rightarrow> Inl e | Inr (h, s') \<Rightarrow> Inr s')"
| "exec k debug (Cancel f) s = CancelAll k f s"
| "exec k debug (Destroy f) s = CompletionCallbackFactory_dtor f s"
| "exec k debug (Invoke h r) s = Run h r s"

fun run :: "missing_ctor \<Rightarrow> bool \<Rightarrow> op list \<Rightarrow> prog_state \<Rightarrow> error + prog_state" where
  "run k debug [] s = Inr s"
| "run k debug (x # xs) s =
     (case exec k debug x s of Inl e \<Rightarrow> Inl e | Inr s' \<Rightarrow> run k debug xs s')"

text \<open>
  Whether a client program can be built at all. The constructor of the factory (line 103)
  and \<open>CancelAll\<close> (line 113) call \<open>InitBackPointer\<close>; a member function of a class
  template is instantiated where it is used, so a program that constructs a factory or
  calls \<open>CancelAll\<close> instantiates line 184, and is ill-formed unless some constructor is
  viable for the call there.
\<close>

fun instantiates_InitBackPointer :: "op \<Rightarrow> bool" where
  "instantiates_InitBackPointer (Construct obj) = True"
| "instantiates_InitBackPointer (Cancel f) = True"
| "instantiates_InitBackPointer (Mint f m) = False"
| "instantiates_InitBackPointer (Destroy f) = False"
| "instantiates_InitBackPointer (Invoke h r) = False"

definition builds :: "op list \<Rightarrow> bool" where
  "builds xs =
     (if list_ex instantiates_InitBackPointer xs
      then viable_constructors line184_arguments \<noteq> []
      else True)"

section \<open>Well-formed states\<close>

text \<open>
  The definitions of this section are not code of the header: they say what the proofs
  are about. \<open>refs_in h fld bp\<close> counts the objects of the heap \<open>h\<close> whose pointer
  field \<open>fld\<close> holds the address \<open>bp\<close>; \<open>holders s bp\<close> is the number of live
  factories plus the number of live handles that point at the cell \<open>bp\<close>.
  \<open>wf_state\<close> is the invariant of the reference counting: no address is used twice
  and all are below the allocator's next address, every factory and every handle points
  at a live cell, the count of every live cell is positive and equals the number of its
  holders, and a cell that names a factory names a live one whose current cell it is.
  \<open>released bp b h\<close> is the heap of cells after \<open>Release\<close> on the cell \<open>b\<close> at
  address \<open>bp\<close>. \<open>target_gone s h\<close> says that the handle \<open>h\<close> is live and that its
  cell names no factory. \<open>current_token_of s fs t\<close> says that \<open>t\<close> is the current cell
  of one of the factories \<open>fs\<close>.
\<close>

definition refs_in :: "(addr \<times> 'a) list \<Rightarrow> ('a \<Rightarrow> addr option) \<Rightarrow> addr \<Rightarrow> nat" where
  "refs_in h fld bp = length (filter (\<lambda>p. fld (snd p) = Some bp) h)"

definition holders :: "prog_state \<Rightarrow> addr \<Rightarrow> nat" where
  "holders s bp = refs_in (factories s) back_pointer bp + refs_in (callbacks s) cb_back_pointer bp"

definition live_token :: "prog_state \<Rightarrow> addr option \<Rightarrow> bool" where
  "live_token s p = (case p of None \<Rightarrow> False | Some bp \<Rightarrow> map_of (back_pointers s) bp \<noteq> None)"

definition bound_to :: "prog_state \<Rightarrow> addr \<Rightarrow> addr option \<Rightarrow> bool" where
  "bound_to s bp p =
     (case p of
        None \<Rightarrow> True
      | Some f \<Rightarrow> (case map_of (factories s) f of None \<Rightarrow> False | Some fa \<Rightarrow> back_pointer fa = Some bp))"

definition wf_state :: "prog_state \<Rightarrow> bool" where
  "wf_state s \<longleftrightarrow>
     distinct (map fst (factories s)) \<and>
     distinct (map fst (back_pointers s)) \<and>
     distinct (map fst (callbacks s)) \<and>
     (\<forall>p \<in> set (factories s). fst p < next_addr s \<and> live_token s (back_pointer (snd p))) \<and>
     (\<forall>p \<in> set (callbacks s). fst p < next_addr s \<and> live_token s (cb_back_pointer (snd p))) \<and>
     (\<forall>p \<in> set (back_pointers s).
        fst p < next_addr s \<and> 0 < holders s (fst p) \<and>
        sint (ref (snd p)) = int (holders s (fst p)) \<and>
        bound_to s (fst p) (factory (snd p)))"

definition released :: "addr \<Rightarrow> BackPointer \<Rightarrow> (addr \<times> BackPointer) list \<Rightarrow> (addr \<times> BackPointer) list" where
  "released bp b h = (if ref b = 1 then AList.delete bp h else AList.update bp (b\<lparr>ref := ref b - 1\<rparr>) h)"

definition target_gone :: "prog_state \<Rightarrow> addr \<Rightarrow> bool" where
  "target_gone s h =
     (case map_of (callbacks s) h of
        None \<Rightarrow> False
      | Some c \<Rightarrow>
          (case deref (back_pointers s) (cb_back_pointer c) of
             Inl e \<Rightarrow> False
           | Inr (bp, b) \<Rightarrow> factory b = None))"


text \<open>
  The unfolding rules that evaluate the operations, the invariant and the viability of a
  constructor call on given arguments.
\<close>

lemmas eval_defs =
  init_state_def CompletionCallbackFactory_ctor_def PP_DCHECK_def InitBackPointer_def
  ResetBackPointer_def CompletionCallbackFactory_dtor_def CancelAll_def NewCallback_def
  CallbackImpl_ctor_def CallbackImpl_delete_def AddRef_def Release_def DropFactory_def
  GetObject_def BackPointer_GetObject_def BackPointer_ctor_def BackPointer_ctor1_def
  deref_def call_method_def Thunk_def Run_def ToPP_def invoke_PP_def Let_def

lemmas wf_eval_defs = wf_state_def holders_def refs_in_def live_token_def bound_to_def

lemmas build_defs =
  builds_def viable_constructors_def line184_arguments_def BackPointer_constructors_def accepts_def

section \<open>The reference count as a signed 32-bit integer\<close>

lemma sint_inc: "sint w \<noteq> 2147483647 \<Longrightarrow> sint (w + 1 :: 32 word) = sint w + 1"
proof -
  assume a: "sint w \<noteq> 2147483647"
  have "sint w < 2 ^ 31" using sint_lt [of w] by simp
  moreover have "- (2 ^ 31) \<le> sint w" using sint_ge [of w] by simp
  ultimately have "- (2 ^ 31) \<le> sint w + 1 \<and> sint w + 1 < 2 ^ 31" using a by simp
  then have "signed_take_bit 31 (sint w + 1) = sint w + 1"
    by (simp add: signed_take_bit_int_eq_self)
  then show ?thesis by (simp add: sint_word_ariths)
qed

lemma sint_dec: "sint w \<noteq> - 2147483648 \<Longrightarrow> sint (w - 1 :: 32 word) = sint w - 1"
proof -
  assume a: "sint w \<noteq> - 2147483648"
  have "sint w < 2 ^ 31" using sint_lt [of w] by simp
  moreover have "- (2 ^ 31) \<le> sint w" using sint_ge [of w] by simp
  ultimately have "- (2 ^ 31) \<le> sint w - 1 \<and> sint w - 1 < 2 ^ 31" using a by simp
  then have "signed_take_bit 31 (sint w - 1) = sint w - 1"
    by (simp add: signed_take_bit_int_eq_self)
  then show ?thesis by (simp add: sint_word_ariths)
qed

lemma sint_eq_one: "sint (w :: 32 word) = 1 \<longleftrightarrow> w = 1"
proof
  assume "sint w = 1"
  then have "sint w = sint (1 :: 32 word)" by simp
  then show "w = 1" by (rule signed_word_eqI)
qed simp

lemma released_count:
  assumes "sint (ref b) = int n + 1"
  shows "ref b = 1 \<longleftrightarrow> n = 0" and "ref b \<noteq> 1 \<Longrightarrow> sint (ref b - 1) = int n \<and> 0 < n"
    and "sint (ref b) \<noteq> - 2147483648"
proof -
  show 1: "ref b = 1 \<longleftrightarrow> n = 0" using assms sint_eq_one [of "ref b"] by auto
  show 3: "sint (ref b) \<noteq> - 2147483648" using assms by simp
  show "ref b \<noteq> 1 \<Longrightarrow> sint (ref b - 1) = int n \<and> 0 < n"
    using 1 assms sint_dec [OF 3] by simp
qed

section \<open>Heaps as association lists\<close>

lemma map_of_update_SomeD:
  "map_of (AList.update k v h) x = Some y \<Longrightarrow> (x = k \<and> y = v) \<or> (x \<noteq> k \<and> map_of h x = Some y)"
  by (simp add: update_conv' split: if_splits)

lemma map_of_update_other: "x \<noteq> k \<Longrightarrow> map_of (AList.update k v h) x = map_of h x"
  by (simp add: update_conv')

lemma map_of_update_same: "map_of (AList.update k v h) k = Some v"
  by (simp add: update_conv')

lemma map_of_delete_SomeD:
  "map_of (AList.delete k h) x = Some y \<Longrightarrow> x \<noteq> k \<and> map_of h x = Some y"
  by (simp add: delete_conv' split: if_splits)

lemma refs_in_update:
  "distinct (map fst h) \<Longrightarrow>
   refs_in (AList.update k v h) fld bp
     + (case map_of h k of None \<Rightarrow> 0 | Some v0 \<Rightarrow> if fld v0 = Some bp then 1 else 0)
   = refs_in h fld bp + (if fld v = Some bp then 1 else 0)"
  by (induction h) (auto simp: refs_in_def split: option.splits)

lemma refs_in_delete:
  "distinct (map fst h) \<Longrightarrow>
   refs_in (AList.delete k h) fld bp
     + (case map_of h k of None \<Rightarrow> 0 | Some v0 \<Rightarrow> if fld v0 = Some bp then 1 else 0)
   = refs_in h fld bp"
  by (induction h) (auto simp: refs_in_def split: option.splits)

lemma refs_in_zero:
  "refs_in h fld bp = 0 \<longleftrightarrow> (\<forall>p \<in> set h. fld (snd p) \<noteq> Some bp)"
  by (auto simp: refs_in_def filter_empty_conv)

lemma refs_in_insert:
  "distinct (map fst h) \<Longrightarrow> map_of h k = None \<Longrightarrow>
   refs_in (AList.update k v h) fld bp = refs_in h fld bp + (if fld v = Some bp then 1 else 0)"
  using refs_in_update [of h k v fld bp] by simp

lemma refs_in_remove:
  "distinct (map fst h) \<Longrightarrow> map_of h k = Some v0 \<Longrightarrow>
   refs_in (AList.delete k h) fld bp + (if fld v0 = Some bp then 1 else 0) = refs_in h fld bp"
  using refs_in_delete [of h k fld bp] by simp

lemma refs_in_replace:
  "distinct (map fst h) \<Longrightarrow> map_of h k = Some v0 \<Longrightarrow>
   refs_in (AList.update k v h) fld bp + (if fld v0 = Some bp then 1 else 0)
     = refs_in h fld bp + (if fld v = Some bp then 1 else 0)"
  using refs_in_update [of h k v fld bp] by simp

lemma refs_in_pos: "map_of h k = Some v \<Longrightarrow> fld v = Some bp \<Longrightarrow> 0 < refs_in h fld bp"
proof -
  assume m: "map_of h k = Some v" and f: "fld v = Some bp"
  from m have "(k, v) \<in> set h" by (rule map_of_SomeD)
  with f have "\<not> (\<forall>p \<in> set h. fld (snd p) \<noteq> Some bp)" by force
  then have "refs_in h fld bp \<noteq> 0" using refs_in_zero [of h fld bp] by blast
  then show ?thesis by simp
qed

lemma map_of_released:
  "map_of (released bp b h) x =
     (if x = bp then (if ref b = 1 then None else Some (b\<lparr>ref := ref b - 1\<rparr>)) else map_of h x)"
  by (simp add: released_def delete_conv' update_conv')

lemma map_of_released_SomeD:
  "map_of (released bp b h) x = Some y \<Longrightarrow>
     (x = bp \<and> ref b \<noteq> 1 \<and> y = b\<lparr>ref := ref b - 1\<rparr>) \<or> (x \<noteq> bp \<and> map_of h x = Some y)"
  by (simp add: map_of_released split: if_splits)

lemma distinct_released: "distinct (map fst h) \<Longrightarrow> distinct (map fst (released bp b h))"
  by (simp add: released_def distinct_delete distinct_update)

section \<open>What each operation does to the state\<close>

text \<open>
  Each operation, when it meets the objects it dereferences, returns the state with a few
  fields replaced (the lemmas \<open>_eq\<close>); and an operation that returned has met them
  (the lemmas \<open>_InrD\<close>).
\<close>

lemma BackPointer_ctor1_ref: "ref (BackPointer_ctor1 k f) = 0"
  by (cases k) (simp_all add: BackPointer_ctor1_def BackPointer_ctor_def)

lemma BackPointer_ctor1_factory:
  "factory (BackPointer_ctor1 k f) = None \<or> factory (BackPointer_ctor1 k f) = Some f"
  by (cases k) (simp_all add: BackPointer_ctor1_def BackPointer_ctor_def)

lemma ctor_eq:
  "CompletionCallbackFactory_ctor k dbg obj s =
     (if dbg \<and> obj = None then Inl AssertionFailed
      else Inr (next_addr s,
             s\<lparr>factories := AList.update (next_addr s)
                   \<lparr>object = obj, back_pointer = Some (Suc (next_addr s))\<rparr> (factories s),
               back_pointers := AList.update (Suc (next_addr s))
                   ((BackPointer_ctor1 k (next_addr s))\<lparr>ref := 1\<rparr>) (back_pointers s),
               next_addr := Suc (Suc (next_addr s))\<rparr>))"
  by (simp add: CompletionCallbackFactory_ctor_def PP_DCHECK_def InitBackPointer_def AddRef_def
      deref_def BackPointer_ctor1_ref Let_def update_conv')

lemma NewCallback_eq:
  assumes "map_of (factories s) f = Some fa" and "back_pointer fa = Some bp"
    and "map_of (back_pointers s) bp = Some b" and "sint (ref b) \<noteq> 2147483647"
  shows "NewCallback f m s =
           Inr (next_addr s,
             s\<lparr>callbacks := AList.update (next_addr s)
                   \<lparr>thunk = Thunk_ptr, cb_back_pointer = Some bp, cb_method = m\<rparr> (callbacks s),
               back_pointers := AList.update bp (b\<lparr>ref := ref b + 1\<rparr>) (back_pointers s),
               next_addr := Suc (next_addr s)\<rparr>)"
  using assms
  by (simp add: NewCallback_def CallbackImpl_ctor_def AddRef_def deref_def Let_def)

lemma Release_eq:
  assumes "map_of (back_pointers s) bp = Some b" and "sint (ref b) \<noteq> - 2147483648"
  shows "Release (Some bp) s = Inr (s\<lparr>back_pointers := released bp b (back_pointers s)\<rparr>)"
  using assms by (simp add: Release_def deref_def released_def)

lemma ResetBackPointer_eq:
  assumes "map_of (factories s) f = Some fa" and "back_pointer fa = Some bp"
    and "map_of (back_pointers s) bp = Some b" and "sint (ref b) \<noteq> - 2147483648"
  shows "ResetBackPointer f s =
           Inr (s\<lparr>back_pointers := released bp (b\<lparr>factory := None\<rparr>) (back_pointers s)\<rparr>)"
  using assms
  by (simp add: ResetBackPointer_def DropFactory_def Release_def deref_def released_def
      update_conv' delete_update_same)

lemma dtor_eq:
  assumes "map_of (factories s) f = Some fa" and "back_pointer fa = Some bp"
    and "map_of (back_pointers s) bp = Some b" and "sint (ref b) \<noteq> - 2147483648"
  shows "CompletionCallbackFactory_dtor f s =
           Inr (s\<lparr>back_pointers := released bp (b\<lparr>factory := None\<rparr>) (back_pointers s),
                  factories := AList.delete f (factories s)\<rparr>)"
  using assms by (simp add: CompletionCallbackFactory_dtor_def ResetBackPointer_eq)

lemma CancelAll_eq:
  assumes "map_of (factories s) f = Some fa" and "back_pointer fa = Some bp"
    and "map_of (back_pointers s) bp = Some b" and "sint (ref b) \<noteq> - 2147483648"
  shows "CancelAll k f s =
           Inr (s\<lparr>back_pointers := AList.update (next_addr s) ((BackPointer_ctor1 k f)\<lparr>ref := 1\<rparr>)
                      (released bp (b\<lparr>factory := None\<rparr>) (back_pointers s)),
                  factories := AList.update f (fa\<lparr>back_pointer := Some (next_addr s)\<rparr>) (factories s),
                  next_addr := Suc (next_addr s)\<rparr>)"
  using assms
  by (simp add: CancelAll_def ResetBackPointer_eq InitBackPointer_def AddRef_def deref_def
      BackPointer_ctor1_ref Let_def update_conv')

lemma Run_eq:
  assumes "map_of (callbacks s) h = Some c" and "cb_back_pointer c = Some bp"
    and "map_of (back_pointers s) bp = Some b" and "sint (ref b) \<noteq> - 2147483648"
    and "BackPointer_GetObject (Some bp) s = Inr tgt"
  shows "Run h r s =
           Inr (s\<lparr>calls := calls s @ (case tgt of None \<Rightarrow> [] | Some ob \<Rightarrow> [(ob, cb_method c, r)]),
                  back_pointers := released bp b (back_pointers s),
                  callbacks := AList.delete h (callbacks s)\<rparr>)"
proof (cases "thunk c")
  case Thunk_ptr
  with assms show ?thesis
    by (cases tgt)
       (simp_all add: Run_def Thunk_def deref_def CallbackImpl_delete_def call_method_def Release_eq)
qed

lemma NewCallback_InrD:
  assumes "NewCallback f m s = Inr r"
  shows "\<exists>fa bp b. map_of (factories s) f = Some fa \<and> back_pointer fa = Some bp \<and>
           map_of (back_pointers s) bp = Some b \<and> sint (ref b) \<noteq> 2147483647"
  using assms
  by (auto simp: NewCallback_def CallbackImpl_ctor_def AddRef_def deref_def Let_def
      split: option.splits sum.splits if_splits)

lemma ResetBackPointer_InrD:
  assumes "ResetBackPointer f s = Inr s'"
  shows "\<exists>fa bp b. map_of (factories s) f = Some fa \<and> back_pointer fa = Some bp \<and>
           map_of (back_pointers s) bp = Some b \<and> sint (ref b) \<noteq> - 2147483648"
  using assms
  by (auto simp: ResetBackPointer_def DropFactory_def Release_def deref_def update_conv'
      split: option.splits sum.splits if_splits)

lemma dtor_InrD:
  assumes "CompletionCallbackFactory_dtor f s = Inr s'"
  shows "\<exists>fa bp b. map_of (factories s) f = Some fa \<and> back_pointer fa = Some bp \<and>
           map_of (back_pointers s) bp = Some b \<and> sint (ref b) \<noteq> - 2147483648"
proof (cases "ResetBackPointer f s")
  case (Inl e) with assms show ?thesis by (simp add: CompletionCallbackFactory_dtor_def)
next
  case (Inr s1) then show ?thesis by (rule ResetBackPointer_InrD)
qed

lemma CancelAll_InrD:
  assumes "CancelAll k f s = Inr s'"
  shows "\<exists>fa bp b. map_of (factories s) f = Some fa \<and> back_pointer fa = Some bp \<and>
           map_of (back_pointers s) bp = Some b \<and> sint (ref b) \<noteq> - 2147483648"
proof (cases "ResetBackPointer f s")
  case (Inl e) with assms show ?thesis by (simp add: CancelAll_def)
next
  case (Inr s1) then show ?thesis by (rule ResetBackPointer_InrD)
qed

lemma Run_InrD:
  assumes "Run h r s = Inr s'"
  shows "\<exists>c bp b tgt. map_of (callbacks s) h = Some c \<and> cb_back_pointer c = Some bp \<and>
           map_of (back_pointers s) bp = Some b \<and> sint (ref b) \<noteq> - 2147483648 \<and>
           BackPointer_GetObject (Some bp) s = Inr tgt"
proof -
  from assms obtain c where c: "map_of (callbacks s) h = Some c"
    by (auto simp: Run_def split: option.splits)
  have th: "thunk c = Thunk_ptr" by (cases "thunk c") simp
  from assms c th obtain tgt where
    tgt: "BackPointer_GetObject (cb_back_pointer c) s = Inr tgt"
    by (auto simp: Run_def Thunk_def deref_def split: sum.splits)
  then obtain bp b where
    bp: "cb_back_pointer c = Some bp" "map_of (back_pointers s) bp = Some b"
    by (auto simp: BackPointer_GetObject_def deref_def split: option.splits)
  from assms c th tgt bp have "sint (ref b) \<noteq> - 2147483648"
    by (auto simp: Run_def Thunk_def deref_def CallbackImpl_delete_def Release_def call_method_def
        split: option.splits)
  with c bp tgt show ?thesis by auto
qed


section \<open>The invariant\<close>

lemma wf_state_alt:
  "wf_state s \<longleftrightarrow>
     distinct (map fst (factories s)) \<and>
     distinct (map fst (back_pointers s)) \<and>
     distinct (map fst (callbacks s)) \<and>
     (\<forall>f fa. map_of (factories s) f = Some fa \<longrightarrow> f < next_addr s \<and> live_token s (back_pointer fa)) \<and>
     (\<forall>h c. map_of (callbacks s) h = Some c \<longrightarrow> h < next_addr s \<and> live_token s (cb_back_pointer c)) \<and>
     (\<forall>bp b. map_of (back_pointers s) bp = Some b \<longrightarrow>
        bp < next_addr s \<and> 0 < holders s bp \<and> sint (ref b) = int (holders s bp) \<and>
        bound_to s bp (factory b))"
  unfolding wf_state_def by (auto simp: Ball_def)

lemma live_tokenD:
  "live_token s p \<Longrightarrow> \<exists>bp b. p = Some bp \<and> map_of (back_pointers s) bp = Some b"
  by (auto simp: live_token_def split: option.splits)

lemma wf_distinct:
  assumes "wf_state s"
  shows "distinct (map fst (factories s))" and "distinct (map fst (back_pointers s))"
    and "distinct (map fst (callbacks s))"
  using assms unfolding wf_state_def by blast+

lemma wf_factoryD:
  assumes "wf_state s" and "map_of (factories s) f = Some fa"
  shows "f < next_addr s" and "\<exists>bp b. back_pointer fa = Some bp \<and> map_of (back_pointers s) bp = Some b"
  using assms live_tokenD [of s "back_pointer fa"] unfolding wf_state_alt by blast+

lemma wf_callbackD:
  assumes "wf_state s" and "map_of (callbacks s) h = Some c"
  shows "h < next_addr s" and "\<exists>bp b. cb_back_pointer c = Some bp \<and> map_of (back_pointers s) bp = Some b"
  using assms live_tokenD [of s "cb_back_pointer c"] unfolding wf_state_alt by blast+

lemma bound_to_iff:
  "bound_to s bp p \<longleftrightarrow>
     (\<forall>f. p = Some f \<longrightarrow> (\<exists>fa. map_of (factories s) f = Some fa \<and> back_pointer fa = Some bp))"
  by (auto simp: bound_to_def split: option.splits)

lemma bound_to_same_factories:
  "bound_to s bp p \<Longrightarrow> factories s' = factories s \<Longrightarrow> bound_to s' bp p"
  by (simp add: bound_to_iff)

lemma wf_tokenD:
  assumes "wf_state s" and "map_of (back_pointers s) bp = Some b"
  shows "bp < next_addr s" and "0 < holders s bp" and "sint (ref b) = int (holders s bp)"
    and "bound_to s bp (factory b)"
  using assms unfolding wf_state_alt by blast+

lemma wf_stateI:
  assumes "distinct (map fst (factories s))" and "distinct (map fst (back_pointers s))"
    and "distinct (map fst (callbacks s))"
    and "\<And>f fa. map_of (factories s) f = Some fa \<Longrightarrow>
           f < next_addr s \<and> (\<exists>bp b. back_pointer fa = Some bp \<and> map_of (back_pointers s) bp = Some b)"
    and "\<And>h c. map_of (callbacks s) h = Some c \<Longrightarrow>
           h < next_addr s \<and> (\<exists>bp b. cb_back_pointer c = Some bp \<and> map_of (back_pointers s) bp = Some b)"
    and "\<And>bp b. map_of (back_pointers s) bp = Some b \<Longrightarrow>
           bp < next_addr s \<and> 0 < holders s bp \<and> sint (ref b) = int (holders s bp) \<and>
           bound_to s bp (factory b)"
  shows "wf_state s"
  unfolding wf_state_alt
proof (intro conjI allI impI)
  fix f fa assume "map_of (factories s) f = Some fa"
  from assms(4) [OF this] show "f < next_addr s" and "live_token s (back_pointer fa)"
    by (auto simp: live_token_def)
next
  fix h c assume "map_of (callbacks s) h = Some c"
  from assms(5) [OF this] show "h < next_addr s" and "live_token s (cb_back_pointer c)"
    by (auto simp: live_token_def)
next
  fix bp b assume "map_of (back_pointers s) bp = Some b"
  from assms(6) [OF this] show "bp < next_addr s" and "0 < holders s bp"
    and "sint (ref b) = int (holders s bp)" and "bound_to s bp (factory b)"
    by blast+
qed (use assms(1-3) in blast)+

lemma wf_fresh:
  assumes "wf_state s" and "next_addr s \<le> n"
  shows "map_of (factories s) n = None" and "map_of (back_pointers s) n = None"
    and "map_of (callbacks s) n = None"
proof -
  show "map_of (factories s) n = None"
  proof (cases "map_of (factories s) n")
    case (Some fa)
    with assms(1) have "n < next_addr s" unfolding wf_state_alt by blast
    with assms(2) show ?thesis by simp
  qed simp
  show "map_of (back_pointers s) n = None"
  proof (cases "map_of (back_pointers s) n")
    case (Some b)
    with assms(1) have "n < next_addr s" unfolding wf_state_alt by blast
    with assms(2) show ?thesis by simp
  qed simp
  show "map_of (callbacks s) n = None"
  proof (cases "map_of (callbacks s) n")
    case (Some c)
    with assms(1) have "n < next_addr s" unfolding wf_state_alt by blast
    with assms(2) show ?thesis by simp
  qed simp
qed

lemma wf_holders_dead:
  assumes "wf_state s" and "map_of (back_pointers s) bp = None"
  shows "refs_in (factories s) back_pointer bp = 0" and "refs_in (callbacks s) cb_back_pointer bp = 0"
proof -
  have "\<forall>p \<in> set (factories s). live_token s (back_pointer (snd p))"
    using assms(1) unfolding wf_state_def by blast
  then show "refs_in (factories s) back_pointer bp = 0"
    using assms(2) by (auto simp: refs_in_zero live_token_def)
  have "\<forall>p \<in> set (callbacks s). live_token s (cb_back_pointer (snd p))"
    using assms(1) unfolding wf_state_def by blast
  then show "refs_in (callbacks s) cb_back_pointer bp = 0"
    using assms(2) by (auto simp: refs_in_zero live_token_def)
qed

lemma wf_no_underflow:
  assumes "wf_state s" and "map_of (back_pointers s) bp = Some b"
  shows "sint (ref b) \<noteq> - 2147483648"
  using wf_tokenD(2,3) [OF assms] by simp

lemma wf_target:
  assumes "wf_state s" and "map_of (back_pointers s) bp = Some b"
  shows "\<exists>tgt. BackPointer_GetObject (Some bp) s = Inr tgt \<and> (factory b = None \<longrightarrow> tgt = None)"
proof (cases "factory b")
  case None
  with assms(2) show ?thesis by (simp add: BackPointer_GetObject_def deref_def)
next
  case (Some g)
  with wf_tokenD(4) [OF assms] obtain ga where "map_of (factories s) g = Some ga"
    by (auto simp: bound_to_iff)
  with assms(2) Some show ?thesis
    by (simp add: BackPointer_GetObject_def deref_def GetObject_def)
qed


lemma wf_token_freed_iff:
  assumes "wf_state s"
  shows "map_of (back_pointers s) bp = None \<longleftrightarrow> holders s bp = 0"
proof
  assume "map_of (back_pointers s) bp = None"
  from wf_holders_dead [OF assms this] show "holders s bp = 0" by (simp add: holders_def)
next
  assume z: "holders s bp = 0"
  show "map_of (back_pointers s) bp = None"
  proof (cases "map_of (back_pointers s) bp")
    case (Some b)
    from wf_tokenD(2) [OF assms Some] z show ?thesis by simp
  qed simp
qed


text \<open>Every operation that returns keeps the invariant, and so does every client program.\<close>

lemma wf_ctor:
  assumes wf: "wf_state s"
  shows "wf_state
           (s\<lparr>factories := AList.update (next_addr s)
                   \<lparr>object = obj, back_pointer = Some (Suc (next_addr s))\<rparr> (factories s),
               back_pointers := AList.update (Suc (next_addr s))
                   ((BackPointer_ctor1 k (next_addr s))\<lparr>ref := 1\<rparr>) (back_pointers s),
               next_addr := Suc (Suc (next_addr s))\<rparr>)"
    (is "wf_state ?s'")
proof -
  let ?a = "next_addr s"
  note d = wf_distinct [OF wf]
  have fr: "map_of (factories s) ?a = None" "map_of (back_pointers s) (Suc ?a) = None"
    using wf_fresh [OF wf, of ?a] wf_fresh [OF wf, of "Suc ?a"] by simp_all
  have dead: "holders s (Suc ?a) = 0"
    using wf_holders_dead [OF wf fr(2)] by (simp add: holders_def)
  have hold: "holders ?s' bp = holders s bp + (if bp = Suc ?a then 1 else 0)" for bp
    using d(1) fr(1) by (simp add: holders_def refs_in_insert)
  show ?thesis
  proof (rule wf_stateI)
    fix f fa assume "map_of (factories ?s') f = Some fa"
    then have "map_of (AList.update ?a \<lparr>object = obj, back_pointer = Some (Suc ?a)\<rparr> (factories s)) f = Some fa"
      by simp
    from map_of_update_SomeD [OF this]
    show "f < next_addr ?s' \<and>
        (\<exists>bp b. back_pointer fa = Some bp \<and> map_of (back_pointers ?s') bp = Some b)"
    proof (elim disjE conjE)
      assume "f = ?a" "fa = \<lparr>object = obj, back_pointer = Some (Suc ?a)\<rparr>"
      then show ?thesis by (simp add: map_of_update_same)
    next
      assume "f \<noteq> ?a" and m: "map_of (factories s) f = Some fa"
      from wf_factoryD(2) [OF wf m] obtain bp b where
        bp: "back_pointer fa = Some bp" "map_of (back_pointers s) bp = Some b" by blast
      with fr(2) have "bp \<noteq> Suc ?a" by auto
      with bp wf_factoryD(1) [OF wf m] show ?thesis by (simp add: map_of_update_other)
    qed
  next
    fix h c assume m: "map_of (callbacks ?s') h = Some c"
    then have m: "map_of (callbacks s) h = Some c" by simp
    from wf_callbackD(2) [OF wf m] obtain bp b where
      bp: "cb_back_pointer c = Some bp" "map_of (back_pointers s) bp = Some b" by blast
    with fr(2) have "bp \<noteq> Suc ?a" by auto
    with bp wf_callbackD(1) [OF wf m]
    show "h < next_addr ?s' \<and>
        (\<exists>bp b. cb_back_pointer c = Some bp \<and> map_of (back_pointers ?s') bp = Some b)"
      by (simp add: map_of_update_other)
  next
    fix bp b assume "map_of (back_pointers ?s') bp = Some b"
    then have "map_of (AList.update (Suc ?a) ((BackPointer_ctor1 k ?a)\<lparr>ref := 1\<rparr>) (back_pointers s)) bp = Some b"
      by simp
    from map_of_update_SomeD [OF this]
    show "bp < next_addr ?s' \<and> 0 < holders ?s' bp \<and> sint (ref b) = int (holders ?s' bp) \<and>
        bound_to ?s' bp (factory b)"
    proof (elim disjE conjE)
      assume bp: "bp = Suc ?a" and b: "b = ((BackPointer_ctor1 k ?a)\<lparr>ref := 1\<rparr>)"
      have "bound_to ?s' (Suc ?a) (factory (BackPointer_ctor1 k ?a))"
        using BackPointer_ctor1_factory [of k ?a]
        by (auto simp: bound_to_def map_of_update_same)
      with bp b dead show ?thesis by (simp add: hold)
    next
      assume ne: "bp \<noteq> Suc ?a" and m: "map_of (back_pointers s) bp = Some b"
      have "bound_to ?s' bp (factory b)"
      proof (cases "factory b")
        case None then show ?thesis by (simp add: bound_to_def)
      next
        case (Some f)
        with wf_tokenD(4) [OF wf m] obtain fa where
          fa: "map_of (factories s) f = Some fa" "back_pointer fa = Some bp"
          by (auto simp: bound_to_iff)
        with fr(1) have "f \<noteq> ?a" by auto
        with fa Some show ?thesis by (simp add: bound_to_def map_of_update_other)
      qed
      with wf_tokenD(1-3) [OF wf m] ne show ?thesis by (simp add: hold)
    qed
  qed (simp_all add: d distinct_update)
qed

lemma wf_mint:
  assumes wf: "wf_state s" and tok: "map_of (back_pointers s) bp = Some b"
    and nov: "sint (ref b) \<noteq> 2147483647"
  shows "wf_state
           (s\<lparr>callbacks := AList.update (next_addr s)
                   \<lparr>thunk = Thunk_ptr, cb_back_pointer = Some bp, cb_method = m\<rparr> (callbacks s),
               back_pointers := AList.update bp (b\<lparr>ref := ref b + 1\<rparr>) (back_pointers s),
               next_addr := Suc (next_addr s)\<rparr>)"
    (is "wf_state ?s'")
proof -
  let ?a = "next_addr s"
  note d = wf_distinct [OF wf]
  have fr: "map_of (callbacks s) ?a = None"
    using wf_fresh [OF wf, of ?a] by simp
  have hold: "holders ?s' x = holders s x + (if x = bp then 1 else 0)" for x
    using d(3) fr by (simp add: holders_def refs_in_insert)
  have live: "\<exists>b'. map_of (back_pointers ?s') x = Some b'" if "map_of (back_pointers s) x = Some y" for x y
    using that by (cases "x = bp") (simp_all add: map_of_update_same map_of_update_other)
  show ?thesis
  proof (rule wf_stateI)
    fix f fa assume "map_of (factories ?s') f = Some fa"
    then have m: "map_of (factories s) f = Some fa" by simp
    from wf_factoryD(2) [OF wf m] obtain t y where
      t: "back_pointer fa = Some t" "map_of (back_pointers s) t = Some y" by blast
    from live [OF t(2)] t(1) wf_factoryD(1) [OF wf m]
    show "f < next_addr ?s' \<and>
        (\<exists>bp b. back_pointer fa = Some bp \<and> map_of (back_pointers ?s') bp = Some b)"
      by auto
  next
    fix h c assume "map_of (callbacks ?s') h = Some c"
    then have "map_of (AList.update ?a \<lparr>thunk = Thunk_ptr, cb_back_pointer = Some bp, cb_method = m\<rparr> (callbacks s)) h = Some c"
      by simp
    from map_of_update_SomeD [OF this]
    show "h < next_addr ?s' \<and>
        (\<exists>bp b. cb_back_pointer c = Some bp \<and> map_of (back_pointers ?s') bp = Some b)"
    proof (elim disjE conjE)
      assume "h = ?a" "c = \<lparr>thunk = Thunk_ptr, cb_back_pointer = Some bp, cb_method = m\<rparr>"
      then show ?thesis using live [OF tok] by simp
    next
      assume "h \<noteq> ?a" and m: "map_of (callbacks s) h = Some c"
      from wf_callbackD(2) [OF wf m] obtain t y where
        t: "cb_back_pointer c = Some t" "map_of (back_pointers s) t = Some y" by blast
      from live [OF t(2)] t(1) wf_callbackD(1) [OF wf m] show ?thesis by auto
    qed
  next
    fix x y assume "map_of (back_pointers ?s') x = Some y"
    then have "map_of (AList.update bp (b\<lparr>ref := ref b + 1\<rparr>) (back_pointers s)) x = Some y"
      by simp
    from map_of_update_SomeD [OF this]
    show "x < next_addr ?s' \<and> 0 < holders ?s' x \<and> sint (ref y) = int (holders ?s' x) \<and>
        bound_to ?s' x (factory y)"
    proof (elim disjE conjE)
      assume x: "x = bp" and y: "y = b\<lparr>ref := ref b + 1\<rparr>"
      have "bound_to ?s' bp (factory b)"
        by (rule bound_to_same_factories [OF wf_tokenD(4) [OF wf tok]]) simp
      with wf_tokenD(1-3) [OF wf tok] x y sint_inc [OF nov] show ?thesis by (simp add: hold)
    next
      assume ne: "x \<noteq> bp" and m: "map_of (back_pointers s) x = Some y"
      have "bound_to ?s' x (factory y)"
        by (rule bound_to_same_factories [OF wf_tokenD(4) [OF wf m]]) simp
      with wf_tokenD(1-3) [OF wf m] ne show ?thesis by (simp add: hold)
    qed
  qed (simp_all add: d distinct_update)
qed

lemma wf_run:
  assumes wf: "wf_state s" and cb: "map_of (callbacks s) h = Some c"
    and ptr: "cb_back_pointer c = Some bp" and tok: "map_of (back_pointers s) bp = Some b"
  shows "wf_state
           (s\<lparr>calls := tr,
               back_pointers := released bp b (back_pointers s),
               callbacks := AList.delete h (callbacks s)\<rparr>)"
    (is "wf_state ?s'")
proof -
  note d = wf_distinct [OF wf]
  have hold: "holders ?s' x + (if x = bp then 1 else 0) = holders s x" for x
    using refs_in_remove [OF d(3) cb, of cb_back_pointer x] ptr by (auto simp: holders_def)
  have cnt: "sint (ref b) = int (holders ?s' bp) + 1"
    using wf_tokenD(3) [OF wf tok] hold [of bp] by simp
  have live: "\<exists>b'. map_of (back_pointers ?s') x = Some b'"
    if "map_of (back_pointers s) x = Some y" and "x = bp \<Longrightarrow> 0 < holders ?s' bp" for x y
    using that released_count(1) [OF cnt] by (cases "x = bp") (simp_all add: map_of_released)
  show ?thesis
  proof (rule wf_stateI)
    fix f fa assume "map_of (factories ?s') f = Some fa"
    then have m: "map_of (factories s) f = Some fa" by simp
    from wf_factoryD(2) [OF wf m] obtain t y where
      t: "back_pointer fa = Some t" "map_of (back_pointers s) t = Some y" by blast
    have "0 < holders ?s' t" using refs_in_pos [of "factories s" f fa back_pointer t, OF m t(1)] by (simp add: holders_def)
    with live [OF t(2)] t(1) wf_factoryD(1) [OF wf m]
    show "f < next_addr ?s' \<and>
        (\<exists>bp b. back_pointer fa = Some bp \<and> map_of (back_pointers ?s') bp = Some b)"
      by auto
  next
    fix k c' assume m': "map_of (callbacks ?s') k = Some c'"
    then have m'': "map_of (AList.delete h (callbacks s)) k = Some c'" by simp
    then have m: "map_of (callbacks s) k = Some c'"
      by (simp add: delete_conv' split: if_splits)
    from wf_callbackD(2) [OF wf m] obtain t y where
      t: "cb_back_pointer c' = Some t" "map_of (back_pointers s) t = Some y" by blast
    have "0 < holders ?s' t" using refs_in_pos [of "AList.delete h (callbacks s)" k c' cb_back_pointer t, OF m'' t(1)]
      by (simp add: holders_def)
    with live [OF t(2)] t(1) wf_callbackD(1) [OF wf m]
    show "k < next_addr ?s' \<and>
        (\<exists>bp b. cb_back_pointer c' = Some bp \<and> map_of (back_pointers ?s') bp = Some b)"
      by auto
  next
    fix x y assume "map_of (back_pointers ?s') x = Some y"
    then have "map_of (released bp b (back_pointers s)) x = Some y" by simp
    then have "x = bp \<and> ref b \<noteq> 1 \<and> y = b\<lparr>ref := ref b - 1\<rparr>
               \<or> x \<noteq> bp \<and> map_of (back_pointers s) x = Some y"
      by (simp add: map_of_released split: if_splits)
    then show "x < next_addr ?s' \<and> 0 < holders ?s' x \<and> sint (ref y) = int (holders ?s' x) \<and>
        bound_to ?s' x (factory y)"
    proof (elim disjE conjE)
      assume x: "x = bp" and r: "ref b \<noteq> 1" and y: "y = b\<lparr>ref := ref b - 1\<rparr>"
      have "bound_to ?s' bp (factory b)"
        by (rule bound_to_same_factories [OF wf_tokenD(4) [OF wf tok]]) simp
      with wf_tokenD(1) [OF wf tok] x y released_count(2) [OF cnt r] show ?thesis by simp
    next
      assume ne: "x \<noteq> bp" and m: "map_of (back_pointers s) x = Some y"
      have "bound_to ?s' x (factory y)"
        by (rule bound_to_same_factories [OF wf_tokenD(4) [OF wf m]]) simp
      with wf_tokenD(1-3) [OF wf m] ne hold [of x] show ?thesis by simp
    qed
  qed (simp_all add: d distinct_delete distinct_released)
qed

lemma wf_dtor:
  assumes wf: "wf_state s" and fac: "map_of (factories s) f = Some fa"
    and ptr: "back_pointer fa = Some bp" and tok: "map_of (back_pointers s) bp = Some b"
  shows "wf_state
           (s\<lparr>back_pointers := released bp (b\<lparr>factory := None\<rparr>) (back_pointers s),
               factories := AList.delete f (factories s)\<rparr>)"
    (is "wf_state ?s'")
proof -
  let ?b = "b\<lparr>factory := None\<rparr>"
  note d = wf_distinct [OF wf]
  have hold: "holders ?s' x + (if x = bp then 1 else 0) = holders s x" for x
    using refs_in_remove [OF d(1) fac, of back_pointer x] ptr by (auto simp: holders_def)
  have cnt: "sint (ref ?b) = int (holders ?s' bp) + 1"
    using wf_tokenD(3) [OF wf tok] hold [of bp] by simp
  have live: "\<exists>b'. map_of (back_pointers ?s') x = Some b'"
    if "map_of (back_pointers s) x = Some y" and "x = bp \<Longrightarrow> 0 < holders ?s' bp" for x y
    using that released_count(1) [OF cnt] by (cases "x = bp") (simp_all add: map_of_released)
  show ?thesis
  proof (rule wf_stateI)
    fix g ga assume "map_of (factories ?s') g = Some ga"
    then have m'': "map_of (AList.delete f (factories s)) g = Some ga" by simp
    from map_of_delete_SomeD [OF this] have m: "map_of (factories s) g = Some ga" by simp
    from wf_factoryD(2) [OF wf m] obtain t y where
      t: "back_pointer ga = Some t" "map_of (back_pointers s) t = Some y" by blast
    have "0 < holders ?s' t"
      using refs_in_pos [of "AList.delete f (factories s)" g ga back_pointer t, OF m'' t(1)]
      by (simp add: holders_def)
    with live [OF t(2)] t(1) wf_factoryD(1) [OF wf m]
    show "g < next_addr ?s' \<and>
        (\<exists>bp b. back_pointer ga = Some bp \<and> map_of (back_pointers ?s') bp = Some b)"
      by auto
  next
    fix k c assume "map_of (callbacks ?s') k = Some c"
    then have m: "map_of (callbacks s) k = Some c" by simp
    from wf_callbackD(2) [OF wf m] obtain t y where
      t: "cb_back_pointer c = Some t" "map_of (back_pointers s) t = Some y" by blast
    have "0 < holders ?s' t"
      using refs_in_pos [of "callbacks s" k c cb_back_pointer t, OF m t(1)]
      by (simp add: holders_def)
    with live [OF t(2)] t(1) wf_callbackD(1) [OF wf m]
    show "k < next_addr ?s' \<and>
        (\<exists>bp b. cb_back_pointer c = Some bp \<and> map_of (back_pointers ?s') bp = Some b)"
      by auto
  next
    fix x y assume "map_of (back_pointers ?s') x = Some y"
    then have "map_of (released bp ?b (back_pointers s)) x = Some y" by simp
    from map_of_released_SomeD [OF this]
    show "x < next_addr ?s' \<and> 0 < holders ?s' x \<and> sint (ref y) = int (holders ?s' x) \<and>
        bound_to ?s' x (factory y)"
    proof (elim disjE conjE)
      assume x: "x = bp" and r: "ref ?b \<noteq> 1" and y: "y = ?b\<lparr>ref := ref ?b - 1\<rparr>"
      from wf_tokenD(1) [OF wf tok] x y released_count(2) [OF cnt r] show ?thesis
        by (simp add: bound_to_def)
    next
      assume ne: "x \<noteq> bp" and m: "map_of (back_pointers s) x = Some y"
      have "bound_to ?s' x (factory y)"
      proof (cases "factory y")
        case None then show ?thesis by (simp add: bound_to_def)
      next
        case (Some g)
        with wf_tokenD(4) [OF wf m] obtain ga where
          ga: "map_of (factories s) g = Some ga" "back_pointer ga = Some x"
          by (auto simp: bound_to_iff)
        with fac ptr ne have "g \<noteq> f" by auto
        with ga Some show ?thesis by (simp add: bound_to_def delete_conv')
      qed
      with wf_tokenD(1-3) [OF wf m] ne hold [of x] show ?thesis by simp
    qed
  qed (simp_all add: d distinct_delete distinct_released)
qed

lemma wf_cancel:
  assumes wf: "wf_state s" and fac: "map_of (factories s) f = Some fa"
    and ptr: "back_pointer fa = Some bp" and tok: "map_of (back_pointers s) bp = Some b"
  shows "wf_state
           (s\<lparr>back_pointers := AList.update (next_addr s) ((BackPointer_ctor1 k f)\<lparr>ref := 1\<rparr>)
                   (released bp (b\<lparr>factory := None\<rparr>) (back_pointers s)),
               factories := AList.update f (fa\<lparr>back_pointer := Some (next_addr s)\<rparr>) (factories s),
               next_addr := Suc (next_addr s)\<rparr>)"
    (is "wf_state ?s'")
proof -
  let ?a = "next_addr s"
  let ?b = "b\<lparr>factory := None\<rparr>"
  note d = wf_distinct [OF wf]
  have fr: "map_of (back_pointers s) ?a = None"
    using wf_fresh [OF wf, of ?a] by simp
  have ne_a: "bp \<noteq> ?a" using wf_tokenD(1) [OF wf tok] by simp
  have dead: "holders s ?a = 0"
    using wf_holders_dead [OF wf fr] by (simp add: holders_def)
  have hold: "holders ?s' x + (if x = bp then 1 else 0) = holders s x + (if x = ?a then 1 else 0)" for x
    using refs_in_replace [OF d(1) fac, of "fa\<lparr>back_pointer := Some ?a\<rparr>" back_pointer x] ptr
    by (auto simp: holders_def)
  have hold_a: "holders ?s' ?a = 1" using hold [of ?a] ne_a dead by simp
  have cnt: "sint (ref ?b) = int (holders ?s' bp) + 1"
    using wf_tokenD(3) [OF wf tok] hold [of bp] ne_a by simp
  have live: "\<exists>b'. map_of (back_pointers ?s') x = Some b'"
    if "map_of (back_pointers s) x = Some y" and "x = bp \<Longrightarrow> 0 < holders ?s' bp" for x y
  proof -
    from that(1) fr have "x \<noteq> ?a" by auto
    then show ?thesis
      using that released_count(1) [OF cnt]
      by (cases "x = bp") (simp_all add: map_of_released map_of_update_other)
  qed
  show ?thesis
  proof (rule wf_stateI)
    fix g ga assume m': "map_of (factories ?s') g = Some ga"
    then have m'': "map_of (AList.update f (fa\<lparr>back_pointer := Some ?a\<rparr>) (factories s)) g = Some ga"
      by simp
    from map_of_update_SomeD [OF this]
    show "g < next_addr ?s' \<and>
        (\<exists>bp b. back_pointer ga = Some bp \<and> map_of (back_pointers ?s') bp = Some b)"
    proof (elim disjE conjE)
      assume "g = f" "ga = fa\<lparr>back_pointer := Some ?a\<rparr>"
      with wf_factoryD(1) [OF wf fac] show ?thesis by (simp add: map_of_update_same)
    next
      assume "g \<noteq> f" and m: "map_of (factories s) g = Some ga"
      from wf_factoryD(2) [OF wf m] obtain t y where
        t: "back_pointer ga = Some t" "map_of (back_pointers s) t = Some y" by blast
      have "0 < holders ?s' t"
        using refs_in_pos [of "AList.update f (fa\<lparr>back_pointer := Some ?a\<rparr>) (factories s)"
            g ga back_pointer t, OF m'' t(1)]
        by (simp add: holders_def)
      with live [OF t(2)] t(1) wf_factoryD(1) [OF wf m] show ?thesis by auto
    qed
  next
    fix k c assume "map_of (callbacks ?s') k = Some c"
    then have m: "map_of (callbacks s) k = Some c" by simp
    from wf_callbackD(2) [OF wf m] obtain t y where
      t: "cb_back_pointer c = Some t" "map_of (back_pointers s) t = Some y" by blast
    have "0 < holders ?s' t"
      using refs_in_pos [of "callbacks s" k c cb_back_pointer t, OF m t(1)]
      by (simp add: holders_def)
    with live [OF t(2)] t(1) wf_callbackD(1) [OF wf m]
    show "k < next_addr ?s' \<and>
        (\<exists>bp b. cb_back_pointer c = Some bp \<and> map_of (back_pointers ?s') bp = Some b)"
      by auto
  next
    fix x y assume "map_of (back_pointers ?s') x = Some y"
    then have "map_of (AList.update ?a ((BackPointer_ctor1 k f)\<lparr>ref := 1\<rparr>)
                 (released bp ?b (back_pointers s))) x = Some y" by simp
    from map_of_update_SomeD [OF this]
    show "x < next_addr ?s' \<and> 0 < holders ?s' x \<and> sint (ref y) = int (holders ?s' x) \<and>
        bound_to ?s' x (factory y)"
    proof (elim disjE conjE)
      assume x: "x = ?a" and y: "y = ((BackPointer_ctor1 k f)\<lparr>ref := 1\<rparr>)"
      have "bound_to ?s' ?a (factory (BackPointer_ctor1 k f))"
        using BackPointer_ctor1_factory [of k f]
        by (auto simp: bound_to_def map_of_update_same)
      with x y hold_a show ?thesis by simp
    next
      assume xa: "x \<noteq> ?a" and "map_of (released bp ?b (back_pointers s)) x = Some y"
      from map_of_released_SomeD [OF this(2)] show ?thesis
      proof (elim disjE conjE)
        assume x: "x = bp" and r: "ref ?b \<noteq> 1" and y: "y = ?b\<lparr>ref := ref ?b - 1\<rparr>"
        from wf_tokenD(1) [OF wf tok] x y released_count(2) [OF cnt r] show ?thesis
          by (simp add: bound_to_def)
      next
        assume ne: "x \<noteq> bp" and m: "map_of (back_pointers s) x = Some y"
        have "bound_to ?s' x (factory y)"
        proof (cases "factory y")
          case None then show ?thesis by (simp add: bound_to_def)
        next
          case (Some g)
          with wf_tokenD(4) [OF wf m] obtain ga where
            ga: "map_of (factories s) g = Some ga" "back_pointer ga = Some x"
            by (auto simp: bound_to_iff)
          with fac ptr ne have "g \<noteq> f" by auto
          with ga Some show ?thesis by (simp add: bound_to_def map_of_update_other)
        qed
        with wf_tokenD(1-3) [OF wf m] ne xa hold [of x] show ?thesis by simp
      qed
    qed
  qed (simp_all add: d distinct_update distinct_released)
qed

lemma wf_exec:
  assumes wf: "wf_state s" and ex: "exec k dbg x s = Inr s'"
  shows "wf_state s'"
proof (cases x)
  case (Construct obj)
  with ex have "\<not> (dbg \<and> obj = None)" by (auto simp: ctor_eq split: if_splits)
  with ex Construct wf_ctor [OF wf, where obj = obj and k = k] show ?thesis by (auto simp: ctor_eq)
next
  case (Mint f m)
  with ex obtain h where nc: "NewCallback f m s = Inr (h, s')"
    by (auto split: sum.splits)
  from NewCallback_InrD [OF nc] obtain fa bp b where
    p: "map_of (factories s) f = Some fa" "back_pointer fa = Some bp"
       "map_of (back_pointers s) bp = Some b" "sint (ref b) \<noteq> 2147483647" by blast
  from nc NewCallback_eq [OF p, of m] wf_mint [OF wf p(3,4), of m] show ?thesis by auto
next
  case (Cancel f)
  with ex have ca: "CancelAll k f s = Inr s'" by simp
  from CancelAll_InrD [OF ca] obtain fa bp b where
    p: "map_of (factories s) f = Some fa" "back_pointer fa = Some bp"
       "map_of (back_pointers s) bp = Some b" "sint (ref b) \<noteq> - 2147483648" by blast
  from ca CancelAll_eq [OF p] wf_cancel [OF wf p(1-3)] show ?thesis by auto
next
  case (Destroy f)
  with ex have de: "CompletionCallbackFactory_dtor f s = Inr s'" by simp
  from dtor_InrD [OF de] obtain fa bp b where
    p: "map_of (factories s) f = Some fa" "back_pointer fa = Some bp"
       "map_of (back_pointers s) bp = Some b" "sint (ref b) \<noteq> - 2147483648" by blast
  from de dtor_eq [OF p] wf_dtor [OF wf p(1-3)] show ?thesis by auto
next
  case (Invoke h r)
  with ex have ru: "Run h r s = Inr s'" by simp
  from Run_InrD [OF ru] obtain c bp b tgt where
    p: "map_of (callbacks s) h = Some c" "cb_back_pointer c = Some bp"
       "map_of (back_pointers s) bp = Some b" "sint (ref b) \<noteq> - 2147483648"
       "BackPointer_GetObject (Some bp) s = Inr tgt" by blast
  from ru Run_eq [OF p, of r] wf_run [OF wf p(1-3)] show ?thesis by auto
qed

lemma wf_run_ops:
  "wf_state s \<Longrightarrow> run k dbg xs s = Inr s' \<Longrightarrow> wf_state s'"
proof (induction xs arbitrary: s)
  case Nil
  then show ?case by simp
next
  case (Cons x xs)
  from Cons.prems(2) obtain s1 where s1: "exec k dbg x s = Inr s1" "run k dbg xs s1 = Inr s'"
    by (auto split: sum.splits)
  from wf_exec [OF Cons.prems(1) s1(1)] s1(2) show ?case by (rule Cons.IH)
qed



text \<open>
  In a well-formed state \<open>Run\<close> on a live handle always returns. When the handle's cell
  names a live factory, \<open>Thunk\<close> calls the bound method once, on the factory's owner,
  with the result code given to \<open>Run\<close>.
\<close>

lemma Run_wf:
  assumes wf: "wf_state s" and cb: "map_of (callbacks s) h = Some c"
  shows "\<exists>bp b tgt. cb_back_pointer c = Some bp \<and> map_of (back_pointers s) bp = Some b \<and>
           BackPointer_GetObject (Some bp) s = Inr tgt \<and> (factory b = None \<longrightarrow> tgt = None) \<and>
           Run h r s =
             Inr (s\<lparr>calls := calls s @ (case tgt of None \<Rightarrow> [] | Some ob \<Rightarrow> [(ob, cb_method c, r)]),
                    back_pointers := released bp b (back_pointers s),
                    callbacks := AList.delete h (callbacks s)\<rparr>)"
proof -
  from wf_callbackD(2) [OF wf cb] obtain bp b where
    bp: "cb_back_pointer c = Some bp" "map_of (back_pointers s) bp = Some b" by blast
  from wf_target [OF wf bp(2)] obtain tgt where
    tgt: "BackPointer_GetObject (Some bp) s = Inr tgt" "factory b = None \<longrightarrow> tgt = None"
    by (elim exE conjE)
  show ?thesis
  proof (intro exI conjI)
    show "cb_back_pointer c = Some bp" by (rule bp(1))
    show "map_of (back_pointers s) bp = Some b" by (rule bp(2))
    show "BackPointer_GetObject (Some bp) s = Inr tgt" by (rule tgt(1))
    show "factory b = None \<longrightarrow> tgt = None" by (rule tgt(2))
    show "Run h r s =
             Inr (s\<lparr>calls := calls s @ (case tgt of None \<Rightarrow> [] | Some ob \<Rightarrow> [(ob, cb_method c, r)]),
                    back_pointers := released bp b (back_pointers s),
                    callbacks := AList.delete h (callbacks s)\<rparr>)"
      by (rule Run_eq [OF cb bp wf_no_underflow [OF wf bp(2)] tgt(1)])
  qed
qed

lemma Run_delivers_if_cell_names_factory:
  assumes wf: "wf_state s" and cb: "map_of (callbacks s) h = Some c"
    and ptr: "cb_back_pointer c = Some bp" and tok: "map_of (back_pointers s) bp = Some b"
    and nam: "factory b = Some f" and fac: "map_of (factories s) f = Some fa"
    and own: "object fa = Some ob"
  shows "\<exists>s'. Run h r s = Inr s' \<and> calls s' = calls s @ [(ob, cb_method c, r)] \<and>
           map_of (callbacks s') h = None"
proof -
  have tgt: "BackPointer_GetObject (Some bp) s = Inr (Some ob)"
    using tok nam fac own by (simp add: BackPointer_GetObject_def deref_def GetObject_def)
  from Run_eq [OF cb ptr tok wf_no_underflow [OF wf tok] tgt, of r] show ?thesis
    by (simp add: delete_conv')
qed

section \<open>Handles whose cell names no factory\<close>

text \<open>
  No operation stores a factory in a cell that exists already, so a handle whose target
  is gone stays so until it is run, whatever the client does in between.
\<close>

lemma target_gone_iff:
  "target_gone s h \<longleftrightarrow>
     (\<exists>c bp b. map_of (callbacks s) h = Some c \<and> cb_back_pointer c = Some bp \<and>
        map_of (back_pointers s) bp = Some b \<and> factory b = None)"
  by (auto simp: target_gone_def deref_def split: option.splits)

lemma exec_keeps_unbound:
  assumes wf: "wf_state s" and ex: "exec k dbg x s = Inr s'"
    and tok: "map_of (back_pointers s) t = Some y"
    and un: "factory y = None" and tok': "map_of (back_pointers s') t = Some y'"
  shows "factory y' = None"
proof (cases x)
  case (Construct obj)
  with ex have "\<not> (dbg \<and> obj = None)" by (auto simp: ctor_eq split: if_splits)
  moreover from wf_tokenD(1) [OF wf tok] have "t \<noteq> Suc (next_addr s)" by simp
  ultimately show ?thesis using ex Construct tok un tok'
    by (auto simp: ctor_eq update_conv' split: if_splits)
next
  case (Mint f m)
  with ex obtain h where nc: "NewCallback f m s = Inr (h, s')"
    by (auto split: sum.splits)
  from NewCallback_InrD [OF nc] obtain fa bp b where
    p: "map_of (factories s) f = Some fa" "back_pointer fa = Some bp"
       "map_of (back_pointers s) bp = Some b" "sint (ref b) \<noteq> 2147483647" by blast
  from nc NewCallback_eq [OF p, of m] p(3) tok un tok' show ?thesis
    by (auto simp: update_conv' split: if_splits)
next
  case (Cancel f)
  with ex have ca: "CancelAll k f s = Inr s'" by simp
  from CancelAll_InrD [OF ca] obtain fa bp b where
    p: "map_of (factories s) f = Some fa" "back_pointer fa = Some bp"
       "map_of (back_pointers s) bp = Some b" "sint (ref b) \<noteq> - 2147483648" by blast
  from wf_tokenD(1) [OF wf tok] have "t \<noteq> next_addr s" by simp
  with ca CancelAll_eq [OF p] p(3) tok un tok' show ?thesis
    by (auto simp: update_conv' map_of_released split: if_splits)
next
  case (Destroy f)
  with ex have de: "CompletionCallbackFactory_dtor f s = Inr s'" by simp
  from dtor_InrD [OF de] obtain fa bp b where
    p: "map_of (factories s) f = Some fa" "back_pointer fa = Some bp"
       "map_of (back_pointers s) bp = Some b" "sint (ref b) \<noteq> - 2147483648" by blast
  from de dtor_eq [OF p] p(3) tok un tok' show ?thesis
    by (auto simp: map_of_released split: if_splits)
next
  case (Invoke h r)
  with ex have ru: "Run h r s = Inr s'" by simp
  from Run_InrD [OF ru] obtain c bp b tgt where
    p: "map_of (callbacks s) h = Some c" "cb_back_pointer c = Some bp"
       "map_of (back_pointers s) bp = Some b" "sint (ref b) \<noteq> - 2147483648"
       "BackPointer_GetObject (Some bp) s = Inr tgt" by blast
  from ru Run_eq [OF p, of r] p(3) tok un tok' show ?thesis
    by (auto simp: map_of_released split: if_splits)
qed

lemma exec_keeps_callback:
  assumes wf: "wf_state s" and ex: "exec k dbg x s = Inr s'"
    and cb: "map_of (callbacks s) h = Some c" and other: "\<forall>r. x \<noteq> Invoke h r"
  shows "map_of (callbacks s') h = Some c"
proof (cases x)
  case (Construct obj)
  with ex have "\<not> (dbg \<and> obj = None)" by (auto simp: ctor_eq split: if_splits)
  with ex Construct cb show ?thesis by (auto simp: ctor_eq)
next
  case (Mint f m)
  with ex obtain k where nc: "NewCallback f m s = Inr (k, s')"
    by (auto split: sum.splits)
  from NewCallback_InrD [OF nc] obtain fa bp b where
    p: "map_of (factories s) f = Some fa" "back_pointer fa = Some bp"
       "map_of (back_pointers s) bp = Some b" "sint (ref b) \<noteq> 2147483647" by blast
  from wf_callbackD(1) [OF wf cb] have "h \<noteq> next_addr s" by simp
  with nc NewCallback_eq [OF p, of m] cb show ?thesis
    by (auto simp: update_conv')
next
  case (Cancel f)
  with ex have ca: "CancelAll k f s = Inr s'" by simp
  from CancelAll_InrD [OF ca] obtain fa bp b where
    p: "map_of (factories s) f = Some fa" "back_pointer fa = Some bp"
       "map_of (back_pointers s) bp = Some b" "sint (ref b) \<noteq> - 2147483648" by blast
  from ca CancelAll_eq [OF p] cb show ?thesis by auto
next
  case (Destroy f)
  with ex have de: "CompletionCallbackFactory_dtor f s = Inr s'" by simp
  from dtor_InrD [OF de] obtain fa bp b where
    p: "map_of (factories s) f = Some fa" "back_pointer fa = Some bp"
       "map_of (back_pointers s) bp = Some b" "sint (ref b) \<noteq> - 2147483648" by blast
  from de dtor_eq [OF p] cb show ?thesis by auto
next
  case (Invoke k r)
  with other have ne: "h \<noteq> k" by auto
  from Invoke ex have ru: "Run k r s = Inr s'" by simp
  from Run_InrD [OF ru] obtain c' bp b tgt where
    p: "map_of (callbacks s) k = Some c'" "cb_back_pointer c' = Some bp"
       "map_of (back_pointers s) bp = Some b" "sint (ref b) \<noteq> - 2147483648"
       "BackPointer_GetObject (Some bp) s = Inr tgt" by blast
  from ru Run_eq [OF p, of r] cb ne show ?thesis
    by (auto simp: delete_conv')
qed

lemma target_gone_exec:
  assumes wf: "wf_state s" and tg: "target_gone s h" and ex: "exec k dbg x s = Inr s'"
    and other: "\<forall>r. x \<noteq> Invoke h r"
  shows "target_gone s' h"
proof -
  from tg obtain c bp b where
    c: "map_of (callbacks s) h = Some c" "cb_back_pointer c = Some bp"
       "map_of (back_pointers s) bp = Some b" "factory b = None"
    unfolding target_gone_iff by blast
  have c': "map_of (callbacks s') h = Some c"
    by (rule exec_keeps_callback [OF wf ex c(1) other])
  from wf_callbackD(2) [OF wf_exec [OF wf ex] c'] c(2) obtain b' where
    b': "map_of (back_pointers s') bp = Some b'" by auto
  from exec_keeps_unbound [OF wf ex c(3,4) b'] c' c(2) b' show ?thesis
    unfolding target_gone_iff by blast
qed

lemma target_gone_run_ops:
  "wf_state s \<Longrightarrow> target_gone s h \<Longrightarrow> run k dbg xs s = Inr s' \<Longrightarrow>
   \<forall>r. Invoke h r \<notin> set xs \<Longrightarrow> target_gone s' h"
proof (induction xs arbitrary: s)
  case Nil
  then show ?case by simp
next
  case (Cons x xs)
  from Cons.prems(3) obtain s1 where s1: "exec k dbg x s = Inr s1" "run k dbg xs s1 = Inr s'"
    by (auto split: sum.splits)
  from Cons.prems(4) have o: "\<forall>r. x \<noteq> Invoke h r" "\<forall>r. Invoke h r \<notin> set xs" by auto
  from wf_exec [OF Cons.prems(1) s1(1)] target_gone_exec [OF Cons.prems(1,2) s1(1) o(1)] s1(2) o(2)
  show ?case by (rule Cons.IH)
qed

lemma target_gone_Run:
  assumes wf: "wf_state s" and tg: "target_gone s h"
  shows "\<exists>s'. Run h r s = Inr s' \<and> calls s' = calls s \<and> map_of (callbacks s') h = None \<and>
           factories s' = factories s \<and> wf_state s'"
proof -
  from tg obtain c bp b where
    c: "map_of (callbacks s) h = Some c" "cb_back_pointer c = Some bp"
       "map_of (back_pointers s) bp = Some b" "factory b = None"
    unfolding target_gone_iff by blast
  from Run_wf [OF wf c(1), of r] c(2-4) have
    ru: "Run h r s = Inr (s\<lparr>calls := calls s,
                    back_pointers := released bp b (back_pointers s),
                    callbacks := AList.delete h (callbacks s)\<rparr>)"
    by auto
  from wf_run [OF wf c(1-3), of "calls s"] ru show ?thesis by (simp add: delete_conv')
qed

lemma reset_target_gone:
  assumes wf: "wf_state s" and fac: "map_of (factories s) f = Some fa"
    and cb: "map_of (callbacks s) h = Some c" and same: "cb_back_pointer c = back_pointer fa"
    and x: "x = Destroy f \<or> x = Cancel f"
  shows "\<exists>s1. exec k dbg x s = Inr s1 \<and> target_gone s1 h \<and> wf_state s1 \<and>
           (x = Destroy f \<longrightarrow> map_of (factories s1) f = None)"
proof -
  from wf_factoryD(2) [OF wf fac] obtain bp b where
    bp: "back_pointer fa = Some bp" "map_of (back_pointers s) bp = Some b" by blast
  note ov = wf_no_underflow [OF wf bp(2)]
  have ne: "bp \<noteq> next_addr s" using wf_tokenD(1) [OF wf bp(2)] by simp
  from x show ?thesis
  proof
    assume xd: "x = Destroy f"
    let ?s1 = "s\<lparr>back_pointers := released bp (b\<lparr>factory := None\<rparr>) (back_pointers s),
                  factories := AList.delete f (factories s)\<rparr>"
    have ex: "exec k dbg x s = Inr ?s1" using xd dtor_eq [OF fac bp ov] by simp
    have wf1: "wf_state ?s1" by (rule wf_dtor [OF wf fac bp])
    have c1: "map_of (callbacks ?s1) h = Some c" using cb by simp
    from wf_callbackD(2) [OF wf1 c1] same bp(1) obtain b' where
      b': "map_of (released bp (b\<lparr>factory := None\<rparr>) (back_pointers s)) bp = Some b'" by auto
    from map_of_released_SomeD [OF b'] have "factory b' = None" by auto
    with c1 same bp(1) b' have "target_gone ?s1 h" unfolding target_gone_iff by auto
    with ex wf1 show ?thesis by (auto simp: delete_conv')
  next
    assume xc: "x = Cancel f"
    let ?s1 = "s\<lparr>back_pointers := AList.update (next_addr s) ((BackPointer_ctor1 k f)\<lparr>ref := 1\<rparr>)
                      (released bp (b\<lparr>factory := None\<rparr>) (back_pointers s)),
                  factories := AList.update f (fa\<lparr>back_pointer := Some (next_addr s)\<rparr>) (factories s),
                  next_addr := Suc (next_addr s)\<rparr>"
    have ex: "exec k dbg x s = Inr ?s1" using xc CancelAll_eq [OF fac bp ov] by simp
    have wf1: "wf_state ?s1" by (rule wf_cancel [OF wf fac bp])
    have c1: "map_of (callbacks ?s1) h = Some c" using cb by simp
    from wf_callbackD(2) [OF wf1 c1] same bp(1) ne obtain b' where
      b': "map_of (released bp (b\<lparr>factory := None\<rparr>) (back_pointers s)) bp = Some b'"
      by (auto simp: map_of_update_other)
    from map_of_released_SomeD [OF b'] have "factory b' = None" by auto
    with c1 same bp(1) b' ne have "target_gone ?s1 h"
      unfolding target_gone_iff by (auto simp: map_of_update_other)
    with ex wf1 xc show ?thesis by auto
  qed
qed

section \<open>What CancelAll leaves alone\<close>







section \<open>A cell its factory has let go\<close>





section \<open>Line 184 has no constructor to call\<close>

text \<open>
  No constructor of \<open>BackPointer\<close> is viable for \<open>new BackPointer(this)\<close>; the declared
  one is viable for a call without arguments only. A client program builds exactly when
  it neither constructs a factory nor calls \<open>CancelAll\<close>.

  The remaining lemmas of this section say what the choice of the missing constructor
  decides. With a constructor that leaves \<open>factory_\<close> at \<open>NULL\<close> no cell ever names a
  factory, and no client program started on the empty heap ever calls a bound method.
  With a constructor that stores its argument the cell names the factory: the handle
  minted by a new factory delivers its result code, the handle minted after \<open>CancelAll\<close>
  delivers and the one minted before does not, and the cell of a new factory resolves to
  the factory's owner.
\<close>

lemma line184_has_no_viable_constructor: "viable_constructors line184_arguments = []"
  by (simp add: viable_constructors_def line184_arguments_def BackPointer_constructors_def
      accepts_def)

lemma declared_constructor_is_viable_without_argument: "viable_constructors [] = [[]]"
  by (simp add: viable_constructors_def BackPointer_constructors_def)

lemma builds_iff:
  "builds xs \<longleftrightarrow> \<not> list_ex instantiates_InitBackPointer xs"
  by (simp add: builds_def line184_has_no_viable_constructor)

lemma exec_never_binds:
  assumes ex: "exec Leaves_null dbg x s = Inr s'"
    and un: "\<forall>t y. map_of (back_pointers s) t = Some y \<longrightarrow> factory y = None"
    and em: "calls s = []"
  shows "(\<forall>t y. map_of (back_pointers s') t = Some y \<longrightarrow> factory y = None) \<and> calls s' = []"
proof (cases x)
  case (Construct obj)
  with ex have "\<not> (dbg \<and> obj = None)" by (auto simp: ctor_eq split: if_splits)
  with ex Construct un em show ?thesis
    by (auto simp: ctor_eq update_conv' BackPointer_ctor1_def BackPointer_ctor_def split: if_splits)
next
  case (Mint f m)
  with ex obtain h where nc: "NewCallback f m s = Inr (h, s')"
    by (auto split: sum.splits)
  from NewCallback_InrD [OF nc] obtain fa bp b where
    p: "map_of (factories s) f = Some fa" "back_pointer fa = Some bp"
       "map_of (back_pointers s) bp = Some b" "sint (ref b) \<noteq> 2147483647" by blast
  from nc NewCallback_eq [OF p, of m] p(3) un em show ?thesis
    by (auto simp: update_conv' split: if_splits)
next
  case (Cancel f)
  with ex have ca: "CancelAll Leaves_null f s = Inr s'" by simp
  from CancelAll_InrD [OF ca] obtain fa bp b where
    p: "map_of (factories s) f = Some fa" "back_pointer fa = Some bp"
       "map_of (back_pointers s) bp = Some b" "sint (ref b) \<noteq> - 2147483648" by blast
  from ca CancelAll_eq [OF p] p(3) un em show ?thesis
    by (auto simp: update_conv' map_of_released BackPointer_ctor1_def BackPointer_ctor_def
        split: if_splits)
next
  case (Destroy f)
  with ex have de: "CompletionCallbackFactory_dtor f s = Inr s'" by simp
  from dtor_InrD [OF de] obtain fa bp b where
    p: "map_of (factories s) f = Some fa" "back_pointer fa = Some bp"
       "map_of (back_pointers s) bp = Some b" "sint (ref b) \<noteq> - 2147483648" by blast
  from de dtor_eq [OF p] p(3) un em show ?thesis
    by (auto simp: map_of_released split: if_splits)
next
  case (Invoke h r)
  with ex have ru: "Run h r s = Inr s'" by simp
  from Run_InrD [OF ru] obtain c bp b tgt where
    p: "map_of (callbacks s) h = Some c" "cb_back_pointer c = Some bp"
       "map_of (back_pointers s) bp = Some b" "sint (ref b) \<noteq> - 2147483648"
       "BackPointer_GetObject (Some bp) s = Inr tgt" by blast
  from un p(3) have "factory b = None" by simp
  with p(3,5) have "tgt = None" by (simp add: BackPointer_GetObject_def deref_def)
  with ru Run_eq [OF p, of r] p(3) un em show ?thesis
    by (auto simp: map_of_released split: if_splits)
qed

lemma nothing_delivered_if_argument_dropped:
  assumes "run Leaves_null dbg xs init_state = Inr s"
  shows "calls s = []"
proof -
  have "run Leaves_null dbg xs s0 = Inr s \<Longrightarrow>
        (\<forall>t y. map_of (back_pointers s0) t = Some y \<longrightarrow> factory y = None) \<Longrightarrow> calls s0 = [] \<Longrightarrow>
        calls s = []" for s0
  proof (induction xs arbitrary: s0)
    case Nil
    then show ?case by simp
  next
    case (Cons x xs)
    from Cons.prems(1) obtain s1 where
      s1: "exec Leaves_null dbg x s0 = Inr s1" "run Leaves_null dbg xs s1 = Inr s"
      by (auto split: sum.splits)
    from exec_never_binds [OF s1(1) Cons.prems(2,3)] Cons.IH [OF s1(2)] show ?case by simp
  qed
  from this [OF assms] show ?thesis by (simp add: init_state_def)
qed

lemma delivery_scenario_if_argument_stored:
  "run Stores_argument True [Construct (Some 7), Mint 0 3, Invoke 2 42] init_state =
     Inr \<lparr>factories = [(0, \<lparr>object = Some 7, back_pointer = Some 1\<rparr>)],
          back_pointers = [(1, \<lparr>ref = 1, factory = Some 0\<rparr>)],
          callbacks = [], next_addr = 3, calls = [(7, 3, 42)]\<rparr>"
  by (simp add: eval_defs)

lemma delivery_scenario_if_argument_dropped:
  "run Leaves_null True [Construct (Some 7), Mint 0 3, Invoke 2 42] init_state =
     Inr \<lparr>factories = [(0, \<lparr>object = Some 7, back_pointer = Some 1\<rparr>)],
          back_pointers = [(1, \<lparr>ref = 1, factory = None\<rparr>)],
          callbacks = [], next_addr = 3, calls = []\<rparr>"
  by (simp add: eval_defs)

lemma cancel_scenario_if_argument_stored:
  "run Stores_argument True
       [Construct (Some 7), Mint 0 3, Cancel 0, Mint 0 3, Invoke 4 7, Invoke 2 (- 1)] init_state =
     Inr \<lparr>factories = [(0, \<lparr>object = Some 7, back_pointer = Some 3\<rparr>)],
          back_pointers = [(3, \<lparr>ref = 1, factory = Some 0\<rparr>)],
          callbacks = [], next_addr = 5, calls = [(7, 3, 7)]\<rparr>"
  by (simp add: eval_defs)

lemma cancel_scenario_if_argument_dropped:
  "run Leaves_null True
       [Construct (Some 7), Mint 0 3, Cancel 0, Mint 0 3, Invoke 4 7, Invoke 2 (- 1)] init_state =
     Inr \<lparr>factories = [(0, \<lparr>object = Some 7, back_pointer = Some 3\<rparr>)],
          back_pointers = [(3, \<lparr>ref = 1, factory = None\<rparr>)],
          callbacks = [], next_addr = 5, calls = []\<rparr>"
  by (simp add: eval_defs)

lemma resolve_scenario_if_argument_stored:
  "CompletionCallbackFactory_ctor Stores_argument True (Some 7) init_state =
     Inr (0, \<lparr>factories = [(0, \<lparr>object = Some 7, back_pointer = Some 1\<rparr>)],
              back_pointers = [(1, \<lparr>ref = 1, factory = Some 0\<rparr>)],
              callbacks = [], next_addr = 2, calls = []\<rparr>) \<and>
   BackPointer_GetObject (Some 1)
        \<lparr>factories = [(0, \<lparr>object = Some 7, back_pointer = Some 1\<rparr>)],
         back_pointers = [(1, \<lparr>ref = 1, factory = Some 0\<rparr>)],
         callbacks = [], next_addr = 2, calls = []\<rparr> = Inr (Some 7)"
  by (simp add: eval_defs)

section \<open>The claims of the specification\<close>

text \<open>
  Claim C1: for every handle minted by \<open>NewCallback\<close> while the factory's owner is alive
  and the factory has neither been reset nor destroyed, \<open>Run(result)\<close> calls the bound
  method exactly once, with the result code passed to \<open>Run\<close>, and then destroys the
  handle.

  A handle is minted by a factory, and the factory has to be constructed first. The
  constructor (line 103) calls \<open>InitBackPointer\<close>, and the expression
  \<open>new BackPointer(this)\<close> there (line 184) has no viable constructor: \<open>BackPointer\<close>
  declares the constructor without parameters only (line 132). A program that constructs
  a factory is therefore ill-formed, whatever it does before and after, and with it the
  program that constructs a factory for the owner 7, mints a handle for method 3 and runs
  it with result code 42, for which the claim asks for the one call \<open>(7, 3, 42)\<close>. No
  handle is minted and no method is called, because there is no program.
\<close>

theorem minted_handle_program_does_not_build:
  "\<not> builds (before @ Construct obj # after) \<and>
   \<not> builds [Construct (Some 7), Mint 0 3, Invoke 2 42]"
  by (simp add: build_defs)

text \<open>
  Claim C2: if the factory is destroyed, or reset by \<open>CancelAll\<close>, before a handle it
  minted is invoked, then invoking the handle afterwards calls no method of the owner,
  does not crash, and destroys the handle without leaking memory of the factory.

  In every well-formed state \<open>s\<close>, for a live factory \<open>f\<close> and a live handle \<open>h\<close>
  that shares the factory's current cell: the destructor (or \<open>CancelAll\<close>) returns; after
  the destructor the factory is no longer in the heap; and after any further client
  operations \<open>xs\<close> that do not run \<open>h\<close>, \<open>Run\<close> on \<open>h\<close> returns (no undefined
  behaviour), leaves the trace of calls as it was, frees the handle, and leaves a
  well-formed state, in which every cell without holders has been freed.
\<close>

theorem cancelled_handle_delivers_nothing:
  assumes wf: "wf_state s" and fac: "map_of (factories s) f = Some fa"
    and cb: "map_of (callbacks s) h = Some c" and same: "cb_back_pointer c = back_pointer fa"
    and x: "x = Destroy f \<or> x = Cancel f"
    and other: "\<forall>r. Invoke h r \<notin> set xs"
  shows "\<exists>s1. exec k dbg x s = Inr s1 \<and> (x = Destroy f \<longrightarrow> map_of (factories s1) f = None) \<and>
           (\<forall>s2. run k dbg xs s1 = Inr s2 \<longrightarrow>
              (\<exists>s3. Run h r s2 = Inr s3 \<and> calls s3 = calls s2 \<and>
                 map_of (callbacks s3) h = None \<and> factories s3 = factories s2 \<and>
                 wf_state s3 \<and>
                 (\<forall>bp. map_of (back_pointers s3) bp = None \<longleftrightarrow> holders s3 bp = 0)))"
proof -
  from reset_target_gone [OF wf fac cb same x, where k = k and dbg = dbg] obtain s1 where
    s1: "exec k dbg x s = Inr s1" "target_gone s1 h" "wf_state s1"
        "x = Destroy f \<longrightarrow> map_of (factories s1) f = None" by blast
  show ?thesis
  proof (rule exI [of _ s1], intro conjI allI impI)
    show "exec k dbg x s = Inr s1" by (rule s1(1))
  next
    assume "x = Destroy f"
    with s1(4) show "map_of (factories s1) f = None" by simp
  next
    fix s2 assume r: "run k dbg xs s1 = Inr s2"
    from target_gone_Run [OF wf_run_ops [OF s1(3) r] target_gone_run_ops [OF s1(3,2) r other], of r]
    obtain s3 where
      s3: "Run h r s2 = Inr s3" "calls s3 = calls s2" "map_of (callbacks s3) h = None"
          "factories s3 = factories s2" "wf_state s3"
      by (elim exE conjE)
    show "\<exists>s3. Run h r s2 = Inr s3 \<and> calls s3 = calls s2 \<and>
          map_of (callbacks s3) h = None \<and> factories s3 = factories s2 \<and> wf_state s3 \<and>
          (\<forall>bp. map_of (back_pointers s3) bp = None \<longleftrightarrow> holders s3 bp = 0)"
    proof (intro exI conjI allI)
      show "Run h r s2 = Inr s3" by (rule s3(1))
      show "calls s3 = calls s2" by (rule s3(2))
      show "map_of (callbacks s3) h = None" by (rule s3(3))
      show "factories s3 = factories s2" by (rule s3(4))
      show "wf_state s3" by (rule s3(5))
      show "map_of (back_pointers s3) bp = None \<longleftrightarrow> holders s3 bp = 0" for bp
        by (rule wf_token_freed_iff [OF s3(5)])
    qed
  qed
qed

text \<open>
  The theorem at the state reached, with a constructor that stores its argument, by
  constructing a factory for owner 7 and minting a handle for method 3. Before the
  destructor, \<open>Run\<close> on the handle calls method 3 of owner 7; after the destructor, and
  after a second factory has been constructed, it calls nothing, frees the handle and
  frees the cell.
\<close>

theorem cancelled_handle_delivers_nothing_witness:
  "let s = \<lparr>factories = [(0, \<lparr>object = Some 7, back_pointer = Some 1\<rparr>)],
            back_pointers = [(1, \<lparr>ref = 2, factory = Some 0\<rparr>)],
            callbacks = [(2, \<lparr>thunk = Thunk_ptr, cb_back_pointer = Some 1, cb_method = 3\<rparr>)],
            next_addr = 3, calls = []\<rparr>;
       s1 = \<lparr>factories = [],
            back_pointers = [(1, \<lparr>ref = 1, factory = None\<rparr>)],
            callbacks = [(2, \<lparr>thunk = Thunk_ptr, cb_back_pointer = Some 1, cb_method = 3\<rparr>)],
            next_addr = 3, calls = []\<rparr>;
       s2 = \<lparr>factories = [(3, \<lparr>object = Some 8, back_pointer = Some 4\<rparr>)],
            back_pointers = [(1, \<lparr>ref = 1, factory = None\<rparr>), (4, \<lparr>ref = 1, factory = Some 3\<rparr>)],
            callbacks = [(2, \<lparr>thunk = Thunk_ptr, cb_back_pointer = Some 1, cb_method = 3\<rparr>)],
            next_addr = 5, calls = []\<rparr>;
       s3 = \<lparr>factories = [(3, \<lparr>object = Some 8, back_pointer = Some 4\<rparr>)],
            back_pointers = [(4, \<lparr>ref = 1, factory = Some 3\<rparr>)],
            callbacks = [], next_addr = 5, calls = []\<rparr>
   in run Stores_argument True [Construct (Some 7), Mint 0 3] init_state = Inr s \<and>
      wf_state s \<and>
      (\<exists>s'. Run 2 5 s = Inr s' \<and> calls s' = [(7, 3, 5)]) \<and>
      exec Stores_argument True (Destroy 0) s = Inr s1 \<and>
      run Stores_argument True [Construct (Some 8)] s1 = Inr s2 \<and>
      Run 2 5 s2 = Inr s3 \<and>
      calls s3 = calls s2 \<and> map_of (callbacks s3) 2 = None \<and>
      map_of (back_pointers s3) 1 = None \<and> holders s3 1 = 0"
proof -
  let ?s = "\<lparr>factories = [(0, \<lparr>object = Some 7, back_pointer = Some 1\<rparr>)],
      back_pointers = [(1, \<lparr>ref = 2, factory = Some 0\<rparr>)],
      callbacks = [(2, \<lparr>thunk = Thunk_ptr, cb_back_pointer = Some 1, cb_method = 3\<rparr>)],
      next_addr = 3, calls = []\<rparr>"
  let ?s1 = "\<lparr>factories = [],
            back_pointers = [(1, \<lparr>ref = 1, factory = None\<rparr>)],
            callbacks = [(2, \<lparr>thunk = Thunk_ptr, cb_back_pointer = Some 1, cb_method = 3\<rparr>)],
            next_addr = 3, calls = []\<rparr>"
  let ?s2 = "\<lparr>factories = [(3, \<lparr>object = Some 8, back_pointer = Some 4\<rparr>)],
            back_pointers = [(1, \<lparr>ref = 1, factory = None\<rparr>), (4, \<lparr>ref = 1, factory = Some 3\<rparr>)],
            callbacks = [(2, \<lparr>thunk = Thunk_ptr, cb_back_pointer = Some 1, cb_method = 3\<rparr>)],
            next_addr = 5, calls = []\<rparr>"
  let ?s3 = "\<lparr>factories = [(3, \<lparr>object = Some 8, back_pointer = Some 4\<rparr>)],
            back_pointers = [(4, \<lparr>ref = 1, factory = Some 3\<rparr>)],
            callbacks = [], next_addr = 5, calls = []\<rparr>"
  have e0: "run Stores_argument True [Construct (Some 7), Mint 0 3] init_state = Inr ?s"
    by (simp add: eval_defs)
  have wf: "wf_state ?s" by (simp add: wf_eval_defs)
  have fac: "map_of (factories ?s) 0 = Some \<lparr>object = Some 7, back_pointer = Some 1\<rparr>" by simp
  have cb: "map_of (callbacks ?s) 2 = Some \<lparr>thunk = Thunk_ptr, cb_back_pointer = Some 1, cb_method = 3\<rparr>"
    by simp
  have same: "cb_back_pointer \<lparr>thunk = Thunk_ptr, cb_back_pointer = Some 1, cb_method = 3\<rparr>
                = back_pointer \<lparr>object = Some 7, back_pointer = Some 1\<rparr>" by simp
  have x: "Destroy 0 = Destroy 0 \<or> Destroy 0 = Cancel 0" by simp
  have other: "\<forall>r. Invoke 2 r \<notin> set [Construct (Some 8)]" by simp
  have before: "\<exists>s'. Run 2 5 ?s = Inr s' \<and> calls s' = [(7, 3, 5)]"
    by (simp add: eval_defs)
  have e1: "exec Stores_argument True (Destroy 0) ?s = Inr ?s1" by (simp add: eval_defs)
  have e2: "run Stores_argument True [Construct (Some 8)] ?s1 = Inr ?s2" by (simp add: eval_defs)
  have e3: "Run 2 5 ?s2 = Inr ?s3" by (simp add: eval_defs)
  from cancelled_handle_delivers_nothing [OF wf fac cb same x other,
      where k = Stores_argument and dbg = True and r = 5] e1 e2 e3
  have "calls ?s3 = calls ?s2 \<and> map_of (callbacks ?s3) 2 = None \<and>
        (map_of (back_pointers ?s3) 1 = None \<longleftrightarrow> holders ?s3 1 = 0)"
    by auto
  moreover have "map_of (back_pointers ?s3) 1 = None" by simp
  ultimately show ?thesis using e0 wf before e1 e2 e3 unfolding Let_def by (intro conjI) simp_all
qed

text \<open>
  Claim C3: after \<open>CancelAll\<close>, a handle minted afterwards delivers its result to the bound
  method when invoked, while a handle minted before and not yet invoked delivers nothing.

  \<open>CancelAll\<close> (line 113) calls \<open>InitBackPointer\<close>, whose \<open>new BackPointer(this)\<close>
  (line 184) has no viable constructor. A program that calls \<open>CancelAll\<close> is therefore
  ill-formed, whatever it does before and after, and with it the program of the claim:
  construct a factory for owner 7, mint handle 2, call \<open>CancelAll\<close>, mint handle 4, run
  handle 4 with result code 7 and handle 2 with result code -1, for which the claim asks
  for the one call \<open>(7, 3, 7)\<close>. This is the defect of claim C1, reached through
  \<open>CancelAll\<close>.
\<close>

theorem CancelAll_program_does_not_build:
  "\<not> builds (before @ Cancel f # after) \<and>
   \<not> builds [Construct (Some 7), Mint 0 3, Cancel 0, Mint 0 3, Invoke 4 7, Invoke 2 (- 1)]"
  by (simp add: build_defs)

text \<open>
  Claim C4: constructing a factory initialises a fresh cell bound to this factory, so that
  resolving the cell yields the factory's owner until the factory is reset or destroyed.

  The cell would be created by \<open>new BackPointer(this)\<close> (line 184). The call has one
  argument, a pointer to the factory, and no constructor of \<open>BackPointer\<close> is viable for
  it: the declared constructor is viable for a call without arguments, and the copy
  constructor takes a \<open>BackPointer\<close>. The constructor of the factory cannot be
  instantiated, for any owner, so no cell is initialised and none is bound.
\<close>

theorem factory_constructor_is_ill_formed:
  "viable_constructors line184_arguments = [] \<and>
   viable_constructors [] = [[]] \<and>
   \<not> builds [Construct obj]"
  by (simp add: build_defs)



text \<open>
  Claim C6: invoking a handle always consumes it. Whether the target resolved to a live
  object or to no target, the invocation releases the handle's reference on the cell and
  destroys the handle, as an unconditional last step.

  In every well-formed state, \<open>Run\<close> on a live handle returns; the trace of calls grows
  by the one call when the cell resolved to an object and not at all otherwise; and in
  both cases the handle is removed from the heap, the cell has one holder less, and the
  cell's count is decremented, the cell being freed when the count was 1.
\<close>

theorem Run_always_consumes_handle:
  assumes wf: "wf_state s" and cb: "map_of (callbacks s) h = Some c"
  shows "\<exists>bp b tgt s'.
           cb_back_pointer c = Some bp \<and> map_of (back_pointers s) bp = Some b \<and>
           BackPointer_GetObject (Some bp) s = Inr tgt \<and>
           Run h r s = Inr s' \<and>
           calls s' = calls s @ (case tgt of None \<Rightarrow> [] | Some ob \<Rightarrow> [(ob, cb_method c, r)]) \<and>
           callbacks s' = AList.delete h (callbacks s) \<and>
           map_of (callbacks s') h = None \<and>
           back_pointers s' =
             (if ref b = 1 then AList.delete bp (back_pointers s)
              else AList.update bp (b\<lparr>ref := ref b - 1\<rparr>) (back_pointers s)) \<and>
           holders s' bp + 1 = holders s bp \<and>
           factories s' = factories s"
proof -
  from Run_wf [OF wf cb, of r] obtain bp b tgt where
    p: "cb_back_pointer c = Some bp" "map_of (back_pointers s) bp = Some b"
       "BackPointer_GetObject (Some bp) s = Inr tgt"
       "Run h r s =
          Inr (s\<lparr>calls := calls s @ (case tgt of None \<Rightarrow> [] | Some ob \<Rightarrow> [(ob, cb_method c, r)]),
                 back_pointers := released bp b (back_pointers s),
                 callbacks := AList.delete h (callbacks s)\<rparr>)"
    by (elim exE conjE)
  let ?s' = "s\<lparr>calls := calls s @ (case tgt of None \<Rightarrow> [] | Some ob \<Rightarrow> [(ob, cb_method c, r)]),
                 back_pointers := released bp b (back_pointers s),
                 callbacks := AList.delete h (callbacks s)\<rparr>"
  have hold: "holders ?s' bp + 1 = holders s bp"
    using refs_in_remove [OF wf_distinct(3) [OF wf] cb, of cb_back_pointer bp] p(1)
    by (simp add: holders_def)
  show ?thesis
  proof (intro exI conjI)
    show "cb_back_pointer c = Some bp" by (rule p(1))
    show "map_of (back_pointers s) bp = Some b" by (rule p(2))
    show "BackPointer_GetObject (Some bp) s = Inr tgt" by (rule p(3))
    show "Run h r s = Inr ?s'" by (rule p(4))
    show "calls ?s' = calls s @ (case tgt of None \<Rightarrow> [] | Some ob \<Rightarrow> [(ob, cb_method c, r)])"
      by simp
    show "callbacks ?s' = AList.delete h (callbacks s)" by simp
    show "map_of (callbacks ?s') h = None" by (simp add: delete_conv')
    show "back_pointers ?s' =
             (if ref b = 1 then AList.delete bp (back_pointers s)
              else AList.update bp (b\<lparr>ref := ref b - 1\<rparr>) (back_pointers s))"
      by (simp add: released_def)
    show "holders ?s' bp + 1 = holders s bp" by (rule hold)
    show "factories ?s' = factories s" by simp
  qed
qed

text \<open>
  The theorem at a state with two cells, one that names the factory and one that names
  none: running a handle of the first calls the method, running the handle of the second
  calls nothing and frees the cell; both handles are consumed.
\<close>

theorem Run_always_consumes_handle_witness:
  "let s = \<lparr>factories = [(0, \<lparr>object = Some 7, back_pointer = Some 1\<rparr>)],
            back_pointers = [(1, \<lparr>ref = 3, factory = Some 0\<rparr>), (4, \<lparr>ref = 1, factory = None\<rparr>)],
            callbacks = [(2, \<lparr>thunk = Thunk_ptr, cb_back_pointer = Some 1, cb_method = 3\<rparr>),
                         (3, \<lparr>thunk = Thunk_ptr, cb_back_pointer = Some 1, cb_method = 5\<rparr>),
                         (5, \<lparr>thunk = Thunk_ptr, cb_back_pointer = Some 4, cb_method = 3\<rparr>)],
            next_addr = 6, calls = []\<rparr>
   in wf_state s \<and>
      (\<exists>s'. Run 2 42 s = Inr s' \<and> calls s' = [(7, 3, 42)] \<and>
            map_of (callbacks s') 2 = None \<and> holders s' 1 + 1 = holders s 1 \<and>
            map_of (back_pointers s') 1 = Some \<lparr>ref = 2, factory = Some 0\<rparr>) \<and>
      (\<exists>s'. Run 5 42 s = Inr s' \<and> calls s' = [] \<and>
            map_of (callbacks s') 5 = None \<and> holders s' 4 + 1 = holders s 4 \<and>
            map_of (back_pointers s') 4 = None)"
proof -
  let ?s = "\<lparr>factories = [(0, \<lparr>object = Some 7, back_pointer = Some 1\<rparr>)],
            back_pointers = [(1, \<lparr>ref = 3, factory = Some 0\<rparr>), (4, \<lparr>ref = 1, factory = None\<rparr>)],
            callbacks = [(2, \<lparr>thunk = Thunk_ptr, cb_back_pointer = Some 1, cb_method = 3\<rparr>),
                         (3, \<lparr>thunk = Thunk_ptr, cb_back_pointer = Some 1, cb_method = 5\<rparr>),
                         (5, \<lparr>thunk = Thunk_ptr, cb_back_pointer = Some 4, cb_method = 3\<rparr>)],
            next_addr = 6, calls = []\<rparr>"
  have wf: "wf_state ?s" by (simp add: wf_eval_defs)
  have cb2: "map_of (callbacks ?s) 2 = Some \<lparr>thunk = Thunk_ptr, cb_back_pointer = Some 1, cb_method = 3\<rparr>"
    by simp
  have cb5: "map_of (callbacks ?s) 5 = Some \<lparr>thunk = Thunk_ptr, cb_back_pointer = Some 4, cb_method = 3\<rparr>"
    by simp
  have t1: "BackPointer_GetObject (Some 1) ?s = Inr (Some 7)" by (simp add: eval_defs)
  have t4: "BackPointer_GetObject (Some 4) ?s = Inr None" by (simp add: eval_defs)
  from Run_always_consumes_handle [OF wf cb2, of 42] t1
  have a: "\<exists>s'. Run 2 42 ?s = Inr s' \<and> calls s' = [(7, 3, 42)] \<and>
            map_of (callbacks s') 2 = None \<and> holders s' 1 + 1 = holders ?s 1 \<and>
            map_of (back_pointers s') 1 = Some \<lparr>ref = 2, factory = Some 0\<rparr>"
    by auto
  from Run_always_consumes_handle [OF wf cb5, of 42] t4
  have b: "\<exists>s'. Run 5 42 ?s = Inr s' \<and> calls s' = [] \<and>
            map_of (callbacks s') 5 = None \<and> holders s' 4 + 1 = holders ?s 4 \<and>
            map_of (back_pointers s') 4 = None"
    by auto
  from wf a b show ?thesis unfolding Let_def by (intro conjI)
qed

text \<open>
  Claim C7: \<open>ToPP\<close> of a null handle yields the reserved block-until-complete value rather
  than failing. Whatever \<open>PP_BlockUntilComplete()\<close> returns, \<open>ToPP(NULL)\<close> returns
  it, in every state.
\<close>

theorem ToPP_null_is_block_until_complete:
  "ToPP block_until_complete None s = Inr block_until_complete"
  by (simp add: ToPP_def)

text \<open>
  Claim C8: for every non-null handle and every result code, invoking the pair (dispatch
  function, context) that \<open>ToPP\<close> produces has the same effect as calling \<open>Run\<close> on
  the handle. For a live handle \<open>ToPP\<close> returns the pair of the handle's thunk and the
  handle itself, and invoking the pair gives the same result, state or error, as \<open>Run\<close>.
\<close>

theorem ToPP_pair_runs_like_Run:
  assumes "map_of (callbacks s) h = Some c"
  shows "ToPP block_until_complete (Some h) s = Inr \<lparr>func = Some (thunk c), user_data = Some h\<rparr> \<and>
         invoke_PP \<lparr>func = Some (thunk c), user_data = Some h\<rparr> r s = Run h r s"
  using assms by (simp add: ToPP_def invoke_PP_def Run_def)

text \<open>The theorem at the handle minted by a newly constructed factory.\<close>

theorem ToPP_pair_runs_like_Run_witness:
  "let s = \<lparr>factories = [(0, \<lparr>object = Some 7, back_pointer = Some 1\<rparr>)],
            back_pointers = [(1, \<lparr>ref = 2, factory = Some 0\<rparr>)],
            callbacks = [(2, \<lparr>thunk = Thunk_ptr, cb_back_pointer = Some 1, cb_method = 3\<rparr>)],
            next_addr = 3, calls = []\<rparr>
   in run Stores_argument True [Construct (Some 7), Mint 0 3] init_state = Inr s \<and>
      ToPP \<lparr>func = None, user_data = None\<rparr> (Some 2) s = Inr \<lparr>func = Some Thunk_ptr, user_data = Some 2\<rparr> \<and>
      invoke_PP \<lparr>func = Some Thunk_ptr, user_data = Some 2\<rparr> 42 s = Run 2 42 s \<and>
      Run 2 42 s = Inr \<lparr>factories = [(0, \<lparr>object = Some 7, back_pointer = Some 1\<rparr>)],
                       back_pointers = [(1, \<lparr>ref = 1, factory = Some 0\<rparr>)],
                       callbacks = [], next_addr = 3, calls = [(7, 3, 42)]\<rparr>"
proof -
  let ?s = "\<lparr>factories = [(0, \<lparr>object = Some 7, back_pointer = Some 1\<rparr>)],
            back_pointers = [(1, \<lparr>ref = 2, factory = Some 0\<rparr>)],
            callbacks = [(2, \<lparr>thunk = Thunk_ptr, cb_back_pointer = Some 1, cb_method = 3\<rparr>)],
            next_addr = 3, calls = []\<rparr>"
  have r: "run Stores_argument True [Construct (Some 7), Mint 0 3] init_state = Inr ?s" by (simp add: eval_defs)
  have cb: "map_of (callbacks ?s) 2 = Some \<lparr>thunk = Thunk_ptr, cb_back_pointer = Some 1, cb_method = 3\<rparr>"
    by simp
  have ru: "Run 2 42 ?s = Inr \<lparr>factories = [(0, \<lparr>object = Some 7, back_pointer = Some 1\<rparr>)],
                       back_pointers = [(1, \<lparr>ref = 1, factory = Some 0\<rparr>)],
                       callbacks = [], next_addr = 3, calls = [(7, 3, 42)]\<rparr>"
    by (simp add: eval_defs)
  from ToPP_pair_runs_like_Run [OF cb, of "\<lparr>func = None, user_data = None\<rparr>" 42] r ru
  show ?thesis unfolding Let_def by simp
qed





end
